theory Spec2Isabelle
  imports Main "HOL-Library.Multiset"
begin

section \<open>The query provider\<close>

text \<open>
  Block numbers and token amounts are JavaScript numbers and BigInts; they are modelled
  as unbounded integers (\<open>Math.floor((a + b) / 2)\<close> is \<open>(a + b) div 2\<close>, exact below
  \<open>2^53\<close>).  A thrown \<open>Error\<close> is a value carrying its message.  The provider is an
  external, possibly stateful service: \<open>getLogs\<close> takes the provider's state and a
  filter and returns either the logs or an error, with the next state.
\<close>

datatype error = Error (message: string)

record log =
  blockNumber :: int
  log_topics :: "string list"
  log_data :: string

record log_filter =
  f_address :: string
  f_fromBlock :: int
  f_toBlock :: int
  f_topics :: "string list list"

type_synonym 's getLogs = "'s \<Rightarrow> log_filter \<Rightarrow> (error + log list) \<times> 's"

text \<open>\<open>haystack.includes(needle)\<close> on strings.\<close>

fun str_includes :: "string \<Rightarrow> string \<Rightarrow> bool" where
  "str_includes [] needle = (needle = [])"
| "str_includes (c # cs) needle = (take (length needle) (c # cs) = needle \<or> str_includes cs needle)"

section \<open>block-discovery.js: class VaultBlockDiscovery\<close>

text \<open>
  The object holds the provider and the vault address (which the constructor stores in
  lower case).  \<open>maxBlockRange\<close> and the three event topics are assigned once by the
  constructor and never again, so they are constants here.
\<close>

record 's VaultBlockDiscovery =
  provider :: "'s getLogs"
  vaultAddress :: string

definition maxBlockRange :: int where
  "maxBlockRange = 10000"

definition eventTopics_deposit :: string where
  "eventTopics_deposit = ''0xdcbc1c05240f31ff3ad067ef1ee35ce4997762752e3a095284754544f4c709d7''"

definition eventTopics_withdraw :: string where
  "eventTopics_withdraw = ''0xfbde797d201c681b91056529119e0b02407c7bb96a4a2c75c01fc9667232c8db''"

definition eventTopics_transfer :: string where
  "eventTopics_transfer = ''0xddf252ad1be2c89b69c2b068fc378daa952ba7f163c4a11628f55a4df523b3ef''"

definition activityFilter :: "'s VaultBlockDiscovery \<Rightarrow> int \<Rightarrow> int \<Rightarrow> log_filter" where
  "activityFilter this fromBlock toBlock =
     \<lparr>f_address = vaultAddress this, f_fromBlock = fromBlock, f_toBlock = toBlock,
      f_topics = [[eventTopics_deposit, eventTopics_withdraw, eventTopics_transfer]]\<rparr>"

text \<open>
  \<open>checkBlockRangeForActivity\<close> recurses on a "query exceeds" error with no base case,
  so it need not return: \<open>None\<close> is the run that never returns, \<open>Some (Inl e, s)\<close> the
  run that throws \<open>e\<close>, \<open>Some (Inr b, s)\<close> the run that returns \<open>b\<close>; \<open>s\<close> is the
  provider's state afterwards.  Both halves are awaited before \<open>||\<close> is applied.
\<close>

partial_function (option) checkBlockRangeForActivity ::
  "'s VaultBlockDiscovery \<Rightarrow> int \<Rightarrow> int \<Rightarrow> 's \<Rightarrow> ((error + bool) \<times> 's) option" where
  "checkBlockRangeForActivity this fromBlock toBlock s =
     (case provider this s (activityFilter this fromBlock toBlock) of
        (Inr logs, s1) \<Rightarrow> Some (Inr (length logs > 0), s1)
      | (Inl err, s1) \<Rightarrow>
          if str_includes (message err) ''query exceeds'' then
            (let midPoint = (fromBlock + toBlock) div 2 in
             Option.bind (checkBlockRangeForActivity this fromBlock midPoint s1) (\<lambda>(r1, s2).
               case r1 of
                 Inl e \<Rightarrow> Some (Inl e, s2)
               | Inr firstHalf \<Rightarrow>
                   Option.bind (checkBlockRangeForActivity this (midPoint + 1) toBlock s2) (\<lambda>(r2, s3).
                     case r2 of
                       Inl e \<Rightarrow> Some (Inl e, s3)
                     | Inr secondHalf \<Rightarrow> Some (Inr (firstHalf \<or> secondHalf), s3))))
          else Some (Inl err, s1))"

declare checkBlockRangeForActivity.simps [code]

text \<open>
  The \<open>while\<close> loops of the two searches, on their variables \<open>left\<close>, \<open>right\<close> and
  \<open>result\<close>.  A probe that throws ends the search with that error; a probe that does
  not return leaves the search without a result.
\<close>

function binarySearchFirstActivity_loop ::
  "'s VaultBlockDiscovery \<Rightarrow> int \<Rightarrow> int \<Rightarrow> int \<Rightarrow> 's \<Rightarrow> ((error + int) \<times> 's) option" where
  "binarySearchFirstActivity_loop this left right result s =
     (if left \<le> right then
        (let mid = (left + right) div 2 in
         case checkBlockRangeForActivity this mid (min (mid + maxBlockRange) right) s of
           None \<Rightarrow> None
         | Some (Inl e, s1) \<Rightarrow> Some (Inl e, s1)
         | Some (Inr hasActivity, s1) \<Rightarrow>
             if hasActivity then binarySearchFirstActivity_loop this left (mid - 1) mid s1
             else binarySearchFirstActivity_loop this (mid + maxBlockRange + 1) right result s1)
      else Some (Inr result, s))"
  by pat_completeness auto
termination
  by (relation "measure (\<lambda>(this, left, right, result, s). nat (right - left + 1))")
     (auto simp: maxBlockRange_def)

declare binarySearchFirstActivity_loop.simps [simp del]

definition binarySearchFirstActivity ::
  "'s VaultBlockDiscovery \<Rightarrow> int \<Rightarrow> int \<Rightarrow> 's \<Rightarrow> ((error + int) \<times> 's) option" where
  "binarySearchFirstActivity this left right s = binarySearchFirstActivity_loop this left right (- 1) s"

function binarySearchLastActivity_loop ::
  "'s VaultBlockDiscovery \<Rightarrow> int \<Rightarrow> int \<Rightarrow> int \<Rightarrow> 's \<Rightarrow> ((error + int) \<times> 's) option" where
  "binarySearchLastActivity_loop this left right result s =
     (if left \<le> right then
        (let mid = (left + right) div 2 in
         case checkBlockRangeForActivity this (max (mid - maxBlockRange) left) mid s of
           None \<Rightarrow> None
         | Some (Inl e, s1) \<Rightarrow> Some (Inl e, s1)
         | Some (Inr hasActivity, s1) \<Rightarrow>
             if hasActivity then binarySearchLastActivity_loop this (mid + 1) right mid s1
             else binarySearchLastActivity_loop this left (mid - maxBlockRange - 1) result s1)
      else Some (Inr result, s))"
  by pat_completeness auto
termination
  by (relation "measure (\<lambda>(this, left, right, result, s). nat (right - left + 1))")
     (auto simp: maxBlockRange_def)

declare binarySearchLastActivity_loop.simps [simp del]

definition binarySearchLastActivity ::
  "'s VaultBlockDiscovery \<Rightarrow> int \<Rightarrow> int \<Rightarrow> 's \<Rightarrow> ((error + int) \<times> 's) option" where
  "binarySearchLastActivity this left right s = binarySearchLastActivity_loop this left right left s"

record boundary =
  b_start :: int
  b_end :: int
  totalBlocks :: int

definition findActivityBoundaries ::
  "'s VaultBlockDiscovery \<Rightarrow> int \<Rightarrow> int \<Rightarrow> 's \<Rightarrow> ((error + boundary list) \<times> 's) option" where
  "findActivityBoundaries this fromBlock toBlock s =
     (case binarySearchFirstActivity this fromBlock toBlock s of
        None \<Rightarrow> None
      | Some (Inl e, s1) \<Rightarrow> Some (Inl e, s1)
      | Some (Inr firstActive, s1) \<Rightarrow>
          if firstActive = - 1 then Some (Inr [], s1)
          else
            (case binarySearchLastActivity this firstActive toBlock s1 of
               None \<Rightarrow> None
             | Some (Inl e, s2) \<Rightarrow> Some (Inl e, s2)
             | Some (Inr lastActive, s2) \<Rightarrow>
                 Some (Inr [\<lparr>b_start = firstActive, b_end = lastActive,
                             totalBlocks = lastActive - firstActive + 1\<rparr>], s2)))"

record range =
  r_start :: int
  r_end :: int
  blocks :: int

text \<open>
  \<open>const chunkSize = Math.min(this.maxBlockRange, 5000)\<close>, then the \<open>for\<close> loop of
  \<open>subdivideActiveRegion\<close> with its accumulator \<open>ranges\<close>.
\<close>

definition chunkSize :: int where
  "chunkSize = min maxBlockRange 5000"

function subdivideActiveRegion_loop ::
  "'s VaultBlockDiscovery \<Rightarrow> int \<Rightarrow> int \<Rightarrow> range list \<Rightarrow> 's \<Rightarrow> ((error + range list) \<times> 's) option" where
  "subdivideActiveRegion_loop this endBlock i ranges s =
     (if i \<le> endBlock then
        (let rangeEnd = min (i + chunkSize - 1) endBlock in
         case checkBlockRangeForActivity this i rangeEnd s of
           None \<Rightarrow> None
         | Some (Inl e, s1) \<Rightarrow> Some (Inl e, s1)
         | Some (Inr hasActivity, s1) \<Rightarrow>
             subdivideActiveRegion_loop this endBlock (i + chunkSize)
               (if hasActivity
                then ranges @ [\<lparr>r_start = i, r_end = rangeEnd, blocks = rangeEnd - i + 1\<rparr>]
                else ranges) s1)
      else Some (Inr ranges, s))"
  by pat_completeness auto
termination
  by (relation "measure (\<lambda>(this, endBlock, i, ranges, s). nat (endBlock - i + 1))")
     (auto simp: chunkSize_def maxBlockRange_def)

declare subdivideActiveRegion_loop.simps [simp del]

definition subdivideActiveRegion ::
  "'s VaultBlockDiscovery \<Rightarrow> int \<Rightarrow> int \<Rightarrow> 's \<Rightarrow> ((error + range list) \<times> 's) option" where
  "subdivideActiveRegion this startBlock endBlock s =
     subdivideActiveRegion_loop this endBlock startBlock [] s"

section \<open>The application controller (class VaultTracker)\<close>

text \<open>
  A decoded event is the log it came from together with its parsed arguments
  (\<open>{ ...log, args: parsed.args }\<close>).
\<close>

record 'a event =
  e_log :: log
  args :: 'a

subsection \<open>The controller's copy of checkBlockRangeForActivity\<close>

text \<open>
  The application controller carries its own copy of the discovery class.  Its probe
  differs from the one of \<open>block-discovery.js\<close> in three places: it also recognises
  "max results", it stops splitting when the midpoint is \<open>fromBlock\<close>
  (\<open>return false; // Prevent infinite recursion\<close>), and it logs any other error and
  returns \<open>false\<close> instead of throwing.
\<close>

partial_function (option) checkBlockRangeForActivity_app ::
  "'s VaultBlockDiscovery \<Rightarrow> int \<Rightarrow> int \<Rightarrow> 's \<Rightarrow> ((error + bool) \<times> 's) option" where
  "checkBlockRangeForActivity_app this fromBlock toBlock s =
     (case provider this s (activityFilter this fromBlock toBlock) of
        (Inr logs, s1) \<Rightarrow> Some (Inr (length logs > 0), s1)
      | (Inl err, s1) \<Rightarrow>
          if str_includes (message err) ''query exceeds'' \<or> str_includes (message err) ''max results'' then
            (let midPoint = (fromBlock + toBlock) div 2 in
             if midPoint = fromBlock then Some (Inr False, s1)
             else
               Option.bind (checkBlockRangeForActivity_app this fromBlock midPoint s1) (\<lambda>(r1, s2).
                 case r1 of
                   Inl e \<Rightarrow> Some (Inl e, s2)
                 | Inr firstHalf \<Rightarrow>
                     Option.bind (checkBlockRangeForActivity_app this (midPoint + 1) toBlock s2) (\<lambda>(r2, s3).
                       case r2 of
                         Inl e \<Rightarrow> Some (Inl e, s3)
                       | Inr secondHalf \<Rightarrow> Some (Inr (firstHalf \<or> secondHalf), s3))))
          else Some (Inr False, s1))"

declare checkBlockRangeForActivity_app.simps [code]

subsection \<open>scanByChunksWithTopics\<close>

text \<open>
  The ABI interface (\<open>ethers.Interface\<close>) is external: its topic hashes and its
  \<open>parseLog\<close> are parameters.  \<open>parseLog\<close> gives \<open>None\<close> where the source's call
  throws (the source catches that and ignores the log).  \<open>getEvent('VaultUpdate')\<close> may
  throw, which the source turns into \<open>null\<close>.
\<close>

record 'a parsed =
  p_name :: string
  p_args :: 'a

record 'a iface =
  depositTopic :: string
  withdrawTopic :: string
  transferTopic :: string
  vaultUpdateTopic :: "string option"
  parseLog :: "log \<Rightarrow> 'a parsed option"

record 'a scanned =
  s_depositEvents :: "'a event list"
  s_withdrawEvents :: "'a event list"
  s_transferEvents :: "'a event list"

definition scanChunkSize :: int where
  "scanChunkSize = 2000"

definition topics0 :: "'a iface \<Rightarrow> string list" where
  "topics0 i =
     (let topicsOr = filter (\<lambda>t. t \<noteq> []) [depositTopic i, withdrawTopic i, transferTopic i]
      in case vaultUpdateTopic i of None \<Rightarrow> topicsOr | Some v \<Rightarrow> topicsOr @ [v])"

definition scanFilter :: "'a iface \<Rightarrow> string \<Rightarrow> int \<Rightarrow> int \<Rightarrow> log_filter" where
  "scanFilter i address fromBlock toBlock =
     \<lparr>f_address = address, f_fromBlock = fromBlock, f_toBlock = toBlock, f_topics = [topics0 i]\<rparr>"

text \<open>The decoding loop \<open>for (const log of logs)\<close>.\<close>

fun classifyLogs :: "'a iface \<Rightarrow> log list \<Rightarrow> 'a scanned \<Rightarrow> 'a scanned" where
  "classifyLogs i [] acc = acc"
| "classifyLogs i (l # logs) acc =
     (case parseLog i l of
        None \<Rightarrow> classifyLogs i logs acc
      | Some parsed \<Rightarrow>
          if p_name parsed = ''Deposit'' \<or> p_name parsed = ''DepositMade'' then
            classifyLogs i logs
              (acc\<lparr>s_depositEvents := s_depositEvents acc @ [\<lparr>e_log = l, args = p_args parsed\<rparr>]\<rparr>)
          else if p_name parsed = ''Withdraw'' \<or> p_name parsed = ''WithdrawalMade'' then
            classifyLogs i logs
              (acc\<lparr>s_withdrawEvents := s_withdrawEvents acc @ [\<lparr>e_log = l, args = p_args parsed\<rparr>]\<rparr>)
          else if p_name parsed = ''Transfer'' then
            classifyLogs i logs
              (acc\<lparr>s_transferEvents := s_transferEvents acc @ [\<lparr>e_log = l, args = p_args parsed\<rparr>]\<rparr>)
          else classifyLogs i logs acc)"

text \<open>\<open>getLogs(...).catch(() => [])\<close>: a failed query counts as no logs.\<close>

definition getLogsCatch :: "'s getLogs \<Rightarrow> 's \<Rightarrow> log_filter \<Rightarrow> log list \<times> 's" where
  "getLogsCatch getLogs s q =
     (case getLogs s q of (Inl e, s1) \<Rightarrow> ([], s1) | (Inr logs, s1) \<Rightarrow> (logs, s1))"

text \<open>
  The chunk loop.  Any failure of the chunk's query is caught; the chunk is split once
  when it spans more than 500 blocks and skipped (\<open>continue\<close>) otherwise.
\<close>

function scanByChunksWithTopics_loop ::
  "'s getLogs \<Rightarrow> 'a iface \<Rightarrow> string \<Rightarrow> int \<Rightarrow> int \<Rightarrow> 'a scanned \<Rightarrow> 's \<Rightarrow> 'a scanned \<times> 's" where
  "scanByChunksWithTopics_loop getLogs i address toBlock start acc s =
     (if start \<le> toBlock then
        (let end = min (start + scanChunkSize - 1) toBlock in
         case getLogs s (scanFilter i address start end) of
           (Inr logs, s1) \<Rightarrow>
             scanByChunksWithTopics_loop getLogs i address toBlock (start + scanChunkSize)
               (classifyLogs i logs acc) s1
         | (Inl e, s1) \<Rightarrow>
             if end - start > 500 then
               (let mid = (start + end) div 2;
                    (first, s2) = getLogsCatch getLogs s1 (scanFilter i address start mid);
                    (second, s3) = getLogsCatch getLogs s2 (scanFilter i address (mid + 1) end)
                in scanByChunksWithTopics_loop getLogs i address toBlock (start + scanChunkSize)
                     (classifyLogs i (first @ second) acc) s3)
             else
               scanByChunksWithTopics_loop getLogs i address toBlock (start + scanChunkSize) acc s1)
      else (acc, s))"
  by pat_completeness auto
termination
  by (relation "measure (\<lambda>(getLogs, i, address, toBlock, start, acc, s). nat (toBlock - start + 1))")
     (auto simp: scanChunkSize_def)

declare scanByChunksWithTopics_loop.simps [simp del]

definition scanByChunksWithTopics ::
  "'s getLogs \<Rightarrow> 'a iface \<Rightarrow> string \<Rightarrow> int \<Rightarrow> int \<Rightarrow> 's \<Rightarrow> 'a scanned \<times> 's" where
  "scanByChunksWithTopics getLogs i address fromBlock toBlock s =
     scanByChunksWithTopics_loop getLogs i address toBlock fromBlock
       \<lparr>s_depositEvents = [], s_withdrawEvents = [], s_transferEvents = []\<rparr> s"

subsection \<open>processTransferEvents\<close>

record transfer_args =
  t_from :: string
  t_to :: string
  t_value :: int

text \<open>
  The synthetic arguments; a synthetic deposit has no \<open>receiver\<close> property.
\<close>

record vault_args =
  sender :: string
  receiver :: "string option"
  owner :: string
  assets :: int
  shares :: int

record converted =
  c_depositEvents :: "vault_args event list"
  c_withdrawEvents :: "vault_args event list"

definition zeroAddress :: string where
  "zeroAddress = ''0x0000000000000000000000000000000000000000''"

text \<open>The body of \<open>transferEvents.forEach\<close>, run on the two arrays built so far.\<close>

fun processTransferEvents_forEach ::
  "transfer_args event list \<Rightarrow> converted \<Rightarrow> converted" where
  "processTransferEvents_forEach [] acc = acc"
| "processTransferEvents_forEach (event # rest) acc =
     (let from = t_from (args event); to = t_to (args event); value = t_value (args event) in
      if from = zeroAddress \<and> to \<noteq> zeroAddress then
        processTransferEvents_forEach rest
          (acc\<lparr>c_depositEvents := c_depositEvents acc @
             [\<lparr>e_log = e_log event,
               args = \<lparr>sender = to, receiver = None, owner = to, assets = value, shares = value\<rparr>\<rparr>]\<rparr>)
      else if from \<noteq> zeroAddress \<and> to = zeroAddress then
        processTransferEvents_forEach rest
          (acc\<lparr>c_withdrawEvents := c_withdrawEvents acc @
             [\<lparr>e_log = e_log event,
               args = \<lparr>sender = from, receiver = Some from, owner = from, assets = value,
                       shares = value\<rparr>\<rparr>]\<rparr>)
      else processTransferEvents_forEach rest acc)"

definition processTransferEvents :: "transfer_args event list \<Rightarrow> string \<Rightarrow> converted" where
  "processTransferEvents transferEvents vaultAddress' =
     processTransferEvents_forEach transferEvents \<lparr>c_depositEvents = [], c_withdrawEvents = []\<rparr>"

subsection \<open>processRealEventData: the per-address ledger\<close>

text \<open>
  \<open>addressData\<close> is a \<open>Map\<close> from owner address to a position.  A \<open>Date\<close> is modelled
  by its time value in milliseconds (\<open>new Date(blockTime * 1000)\<close>), which is what
  \<open><\<close> and \<open>>\<close> compare.  \<open>getBlockTimestamp\<close> is memoised per block number in the
  source and is taken as a function from block numbers to seconds.
\<close>

record position =
  address :: string
  totalDeposits :: int
  totalWithdrawals :: int
  totalShares :: int
  firstDeposit :: int
  lastActivity :: int
  depositCount :: int
  withdrawalCount :: int

type_synonym addressData = "string \<rightharpoonup> position"

definition newPosition :: "string \<Rightarrow> int \<Rightarrow> position" where
  "newPosition own blockTime =
     \<lparr>address = own, totalDeposits = 0, totalWithdrawals = 0, totalShares = 0,
      firstDeposit = blockTime * 1000, lastActivity = blockTime * 1000,
      depositCount = 0, withdrawalCount = 0\<rparr>"

definition processDepositEvent ::
  "(int \<Rightarrow> int) \<Rightarrow> addressData \<Rightarrow> vault_args event \<Rightarrow> addressData" where
  "processDepositEvent getBlockTimestamp addressData event =
     (let own = owner (args event);
          blockTime = getBlockTimestamp (blockNumber (e_log event));
          data0 = (case addressData own of None \<Rightarrow> newPosition own blockTime | Some d \<Rightarrow> d);
          data1 = data0\<lparr>totalDeposits := totalDeposits data0 + assets (args event),
                        totalShares := totalShares data0 + shares (args event),
                        depositCount := depositCount data0 + 1\<rparr>;
          eventDate = blockTime * 1000;
          data2 = (if eventDate < firstDeposit data1 then data1\<lparr>firstDeposit := eventDate\<rparr> else data1);
          data3 = (if eventDate > lastActivity data2 then data2\<lparr>lastActivity := eventDate\<rparr> else data2)
      in addressData(own \<mapsto> data3))"

definition processWithdrawEvent ::
  "(int \<Rightarrow> int) \<Rightarrow> addressData \<Rightarrow> vault_args event \<Rightarrow> addressData" where
  "processWithdrawEvent getBlockTimestamp addressData event =
     (let own = owner (args event);
          blockTime = getBlockTimestamp (blockNumber (e_log event));
          data0 = (case addressData own of None \<Rightarrow> newPosition own blockTime | Some d \<Rightarrow> d);
          data1 = data0\<lparr>totalWithdrawals := totalWithdrawals data0 + assets (args event),
                        totalShares := totalShares data0 - shares (args event),
                        withdrawalCount := withdrawalCount data0 + 1\<rparr>;
          eventDate = blockTime * 1000;
          data2 = (if eventDate > lastActivity data1 then data1\<lparr>lastActivity := eventDate\<rparr> else data1)
      in addressData(own \<mapsto> data2))"

text \<open>
  The ledger part of \<open>processRealEventData\<close>: it throws when there is no event at all,
  and otherwise replays every deposit, then every withdrawal, into a fresh map.  (The
  formatting and filtering of the table that follows reads the DOM and is left out.)
\<close>

definition processRealEventData ::
  "(int \<Rightarrow> int) \<Rightarrow> converted \<Rightarrow> error + addressData" where
  "processRealEventData getBlockTimestamp events =
     (if length (c_depositEvents events) = 0 \<and> length (c_withdrawEvents events) = 0 then
        Inl (Error ''No deposit or withdrawal events found for this vault. The vault may be new or inactive.'')
      else
        Inr (foldl (processWithdrawEvent getBlockTimestamp)
               (foldl (processDepositEvent getBlockTimestamp) Map.empty (c_depositEvents events))
               (c_withdrawEvents events)))"

text \<open>\<open>const netAssets = data.totalDeposits - data.totalWithdrawals\<close>.\<close>

definition netAssets :: "position \<Rightarrow> int" where
  "netAssets data = totalDeposits data - totalWithdrawals data"

section \<open>The Graph integration (class GraphVaultDiscovery)\<close>

record block_range =
  br_start :: int
  br_end :: int

text \<open>
  The loop of \<open>consolidateBlockRanges\<close> from index 1 on, over the rest of the array,
  with its three variables.
\<close>

fun consolidateBlockRanges_loop ::
  "int list \<Rightarrow> int \<Rightarrow> int \<Rightarrow> int \<Rightarrow> block_range list \<Rightarrow> block_range list" where
  "consolidateBlockRanges_loop [] maxGap rangeStart rangeEnd ranges =
     ranges @ [\<lparr>br_start = rangeStart, br_end = rangeEnd\<rparr>]"
| "consolidateBlockRanges_loop (currentBlock # rest) maxGap rangeStart rangeEnd ranges =
     (if currentBlock - rangeEnd \<le> maxGap then
        consolidateBlockRanges_loop rest maxGap rangeStart currentBlock ranges
      else
        consolidateBlockRanges_loop rest maxGap currentBlock currentBlock
          (ranges @ [\<lparr>br_start = rangeStart, br_end = rangeEnd\<rparr>]))"

definition consolidateBlockRanges :: "int list \<Rightarrow> int \<Rightarrow> block_range list" where
  "consolidateBlockRanges blockNumbers maxGap =
     (case blockNumbers of
        [] \<Rightarrow> []
      | b0 # rest \<Rightarrow> consolidateBlockRanges_loop rest maxGap b0 b0 [])"

section \<open>Providers used in the scenarios\<close>

text \<open>
  A chain described by an activity predicate on block numbers: the provider never fails
  and returns one log for every active block of the queried interval.
\<close>

definition activityProvider :: "(int \<Rightarrow> bool) \<Rightarrow> unit getLogs" where
  "activityProvider active s q =
     (Inr (map (\<lambda>b. \<lparr>blockNumber = b, log_topics = [eventTopics_transfer], log_data = []\<rparr>)
             (filter active [f_fromBlock q..f_toBlock q])), s)"

text \<open>
  A provider that keeps the list of the queries it has received as its state, and
  answers each from a fixed table.
\<close>

definition recordingProvider :: "(log_filter \<Rightarrow> error + log list) \<Rightarrow> (log_filter list) getLogs" where
  "recordingProvider reply s q = (reply q, s @ [q])"

text \<open>
  A provider whose result-size limit is exceeded by one crowded block: every query whose
  interval covers that block is rejected, every other query finds no log.
\<close>

definition crowdedBlockProvider :: "int \<Rightarrow> unit getLogs" where
  "crowdedBlockProvider b s q =
     (if f_fromBlock q \<le> b \<and> b \<le> f_toBlock q
      then (Inl (Error ''query exceeds max results''), s)
      else (Inr [], s))"

text \<open>
  Scenario A: watched events in every block from 800000 to 800050 and nowhere else.
\<close>

definition scenarioA :: "unit VaultBlockDiscovery" where
  "scenarioA =
     \<lparr>provider = activityProvider (\<lambda>b. 800000 \<le> b \<and> b \<le> 800050), vaultAddress = ''0xvault''\<rparr>"

text \<open>A chain with watched events in blocks 0 and 3 only.\<close>

definition twoBursts :: "unit VaultBlockDiscovery" where
  "twoBursts = \<lparr>provider = activityProvider (\<lambda>b. b = 0 \<or> b = 3), vaultAddress = ''0xvault''\<rparr>"

text \<open>
  An ABI interface for the scanner scenarios: the log's data field names the event, and
  the arguments are left empty.
\<close>

definition namedIface :: "unit iface" where
  "namedIface =
     \<lparr>depositTopic = ''0xdeposit'', withdrawTopic = ''0xwithdraw'', transferTopic = ''0xtransfer'',
      vaultUpdateTopic = None,
      parseLog = (\<lambda>l. if log_data l = [] then None else Some \<lparr>p_name = log_data l, p_args = ()\<rparr>)\<rparr>"

definition namedLog :: "int \<Rightarrow> string \<Rightarrow> log" where
  "namedLog b n = \<lparr>blockNumber = b, log_topics = [], log_data = n\<rparr>"

text \<open>
  Scenario B inside a longer scan: the chunk \<open>[3000, 4999]\<close> is answered with a
  Transfer log, the query for the whole chunk \<open>[5000, 6999]\<close> is rejected, its two
  halves are answered with one Deposit log and one Transfer log, and the chunk
  \<open>[7000, 8999]\<close> is answered with a Withdraw log.
\<close>

definition scenarioB :: "log_filter \<Rightarrow> error + log list" where
  "scenarioB q =
     (if f_fromBlock q = 5000 \<and> f_toBlock q = 6999 then Inl (Error ''RangeTooLarge'')
      else if f_fromBlock q = 3000 \<and> f_toBlock q = 4999 then Inr [namedLog 3100 ''Transfer'']
      else if f_fromBlock q = 5000 \<and> f_toBlock q = 5999 then Inr [namedLog 5100 ''Deposit'']
      else if f_fromBlock q = 6000 \<and> f_toBlock q = 6999 then Inr [namedLog 6100 ''Transfer'']
      else if f_fromBlock q = 7000 \<and> f_toBlock q = 8999 then Inr [namedLog 7100 ''Withdraw'']
      else Inr [])"

text \<open>The same chain when the query for the second half fails as well.\<close>

definition scenarioB_halfFails :: "log_filter \<Rightarrow> error + log list" where
  "scenarioB_halfFails q =
     (if f_fromBlock q = 6000 \<and> f_toBlock q = 6999 then Inl (Error ''RangeTooLarge'')
      else scenarioB q)"


section \<open>Notions used to state the properties\<close>

text \<open>
  A provider that never rejects a query for a single block with the range error.
\<close>

definition answersSingleBlocks :: "'s VaultBlockDiscovery \<Rightarrow> bool" where
  "answersSingleBlocks this =
     (\<forall>s q err s1. f_fromBlock q = f_toBlock q \<longrightarrow> provider this s q = (Inl err, s1) \<longrightarrow>
        \<not> str_includes (message err) ''query exceeds'')"

text \<open>The scanner's result before any log has been decoded, and the union of two results.\<close>

definition noEvents :: "'a scanned" where
  "noEvents = \<lparr>s_depositEvents = [], s_withdrawEvents = [], s_transferEvents = []\<rparr>"

definition unionScanned :: "'a scanned \<Rightarrow> 'a scanned \<Rightarrow> 'a scanned" where
  "unionScanned x y =
     \<lparr>s_depositEvents = s_depositEvents x @ s_depositEvents y,
      s_withdrawEvents = s_withdrawEvents x @ s_withdrawEvents y,
      s_transferEvents = s_transferEvents x @ s_transferEvents y\<rparr>"

text \<open>
  The logs the scanner obtains for one chunk, as the body of its loop computes them:
  the reply to the chunk's query, or after a failure the replies to the two halves of a
  chunk spanning more than 500 blocks, or nothing for a smaller chunk.
\<close>

definition fetchChunk :: "'s getLogs \<Rightarrow> 'a iface \<Rightarrow> string \<Rightarrow> int \<Rightarrow> int \<Rightarrow> 's \<Rightarrow> log list \<times> 's" where
  "fetchChunk getLogs i addr start end s =
     (case getLogs s (scanFilter i addr start end) of
        (Inr logs, s1) \<Rightarrow> (logs, s1)
      | (Inl e, s1) \<Rightarrow>
          if end - start > 500 then
            (let mid = (start + end) div 2;
                 (first, s2) = getLogsCatch getLogs s1 (scanFilter i addr start mid);
                 (second, s3) = getLogsCatch getLogs s2 (scanFilter i addr (mid + 1) end)
             in (first @ second, s3))
          else ([], s1))"

text \<open>The logs of a provider reply, none when the query failed.\<close>

definition logsOrNone :: "error + log list \<Rightarrow> log list" where
  "logsOrNone r = (case r of Inl e \<Rightarrow> [] | Inr logs \<Rightarrow> logs)"

text \<open>
  The two tests of \<open>processTransferEvents\<close> and the two objects it pushes, named so that
  its result can be written in closed form.
\<close>

definition isMint :: "transfer_args event \<Rightarrow> bool" where
  "isMint event = (t_from (args event) = zeroAddress \<and> t_to (args event) \<noteq> zeroAddress)"

definition isBurn :: "transfer_args event \<Rightarrow> bool" where
  "isBurn event = (t_from (args event) \<noteq> zeroAddress \<and> t_to (args event) = zeroAddress)"

definition syntheticDeposit :: "transfer_args event \<Rightarrow> vault_args event" where
  "syntheticDeposit event =
     \<lparr>e_log = e_log event,
      args = \<lparr>sender = t_to (args event), receiver = None, owner = t_to (args event),
              assets = t_value (args event), shares = t_value (args event)\<rparr>\<rparr>"

definition syntheticWithdraw :: "transfer_args event \<Rightarrow> vault_args event" where
  "syntheticWithdraw event =
     \<lparr>e_log = e_log event,
      args = \<lparr>sender = t_from (args event), receiver = Some (t_from (args event)),
              owner = t_from (args event),
              assets = t_value (args event), shares = t_value (args event)\<rparr>\<rparr>"

text \<open>
  Clusters of block numbers: inside a cluster neighbours are at most \<open>maxGap\<close> apart,
  and from the last block of a cluster to the first block of the next the gap is larger
  than \<open>maxGap\<close>.  A cluster is reported as the range from its first to its last block.
\<close>

fun gapsWithin :: "int \<Rightarrow> int list \<Rightarrow> bool" where
  "gapsWithin maxGap (x # y # ys) = (y - x \<le> maxGap \<and> gapsWithin maxGap (y # ys))"
| "gapsWithin maxGap ys = True"

fun gapsBetween :: "int \<Rightarrow> int list list \<Rightarrow> bool" where
  "gapsBetween maxGap (g # h # gs) = (hd h - last g > maxGap \<and> gapsBetween maxGap (h # gs))"
| "gapsBetween maxGap gs = True"

definition rangeOf :: "int list \<Rightarrow> block_range" where
  "rangeOf g = \<lparr>br_start = hd g, br_end = last g\<rparr>"

text \<open>
  A chunk lies in \<open>[startBlock, endBlock]\<close>, spans at most 5000 blocks and records its
  length; a list of chunks is ascending when each chunk ends before every later one starts.
\<close>

definition chunkWithin :: "int \<Rightarrow> int \<Rightarrow> range \<Rightarrow> bool" where
  "chunkWithin startBlock endBlock r =
     (startBlock \<le> r_start r \<and> r_start r \<le> r_end r \<and> r_end r \<le> endBlock
      \<and> r_end r - r_start r + 1 \<le> 5000 \<and> blocks r = r_end r - r_start r + 1)"

definition chunksAscending :: "range list \<Rightarrow> bool" where
  "chunksAscending ranges = sorted_wrt (\<lambda>x y. r_end x < r_start y) ranges"

section \<open>RangeProbe: checkBlockRangeForActivity\<close>


text \<open>
  With the crowded-block provider, a probe of any interval that covers the crowded block
  never returns: the invariant of the recursion is that a call that returns was asked
  about an interval without that block (and returned a boolean).
\<close>

lemma crowded_never_returns_aux:
  assumes "checkBlockRangeForActivity this fromBlock toBlock s = Some r"
  shows "provider this = crowdedBlockProvider b \<longrightarrow>
           \<not> (fromBlock \<le> b \<and> b \<le> toBlock) \<and> (\<exists>v. fst r = Inr v)"
proof (rule checkBlockRangeForActivity.raw_induct
    [where P = "\<lambda>this f t s r. provider this = crowdedBlockProvider b \<longrightarrow>
                  \<not> (f \<le> b \<and> b \<le> t) \<and> (\<exists>v. fst r = Inr v)", OF _ assms])
  fix check :: "unit VaultBlockDiscovery \<Rightarrow> int \<Rightarrow> int \<Rightarrow> unit \<Rightarrow> ((error + bool) \<times> unit) option"
    and this :: "unit VaultBlockDiscovery" and fromBlock toBlock :: int and s :: unit and r
  assume IH: "\<And>this f t s r. check this f t s = Some r \<Longrightarrow>
     provider this = crowdedBlockProvider b \<longrightarrow> \<not> (f \<le> b \<and> b \<le> t) \<and> (\<exists>v. fst r = Inr v)"
  assume body: "(case provider this s (activityFilter this fromBlock toBlock) of
      (Inl err, s1) \<Rightarrow>
        if str_includes (message err) ''query exceeds''
        then let midPoint = (fromBlock + toBlock) div 2
             in Option.bind (check this fromBlock midPoint s1)
                 (\<lambda>(r1, s2).
                     case r1 of Inl e \<Rightarrow> Some (Inl e, s2)
                     | Inr firstHalf \<Rightarrow>
                         Option.bind (check this (midPoint + 1) toBlock s2)
                          (\<lambda>(r2, s3).
                              case r2 of Inl e \<Rightarrow> Some (Inl e, s3)
                              | Inr secondHalf \<Rightarrow>
                                  Some (Inr (firstHalf \<or> secondHalf), s3)))
        else Some (Inl err, s1)
      | (Inr logs, s1) \<Rightarrow> Some (Inr (0 < length logs), s1)) = Some r"
  show "provider this = crowdedBlockProvider b \<longrightarrow>
          \<not> (fromBlock \<le> b \<and> b \<le> toBlock) \<and> (\<exists>v. fst r = Inr v)"
  proof
    assume P: "provider this = crowdedBlockProvider b"
    show "\<not> (fromBlock \<le> b \<and> b \<le> toBlock) \<and> (\<exists>v. fst r = Inr v)"
    proof (cases "fromBlock \<le> b \<and> b \<le> toBlock")
      case False
      with body P show ?thesis
        by (auto simp: crowdedBlockProvider_def activityFilter_def)
    next
      case True
      let ?mid = "(fromBlock + toBlock) div 2"
      from body P True obtain r1 s2 where
        first: "check this fromBlock ?mid () = Some (r1, s2)" and
        rest: "(case r1 of Inl e \<Rightarrow> Some (Inl e, s2)
                | Inr firstHalf \<Rightarrow>
                    Option.bind (check this (?mid + 1) toBlock s2)
                      (\<lambda>(r2, s3). case r2 of Inl e \<Rightarrow> Some (Inl e, s3)
                         | Inr secondHalf \<Rightarrow> Some (Inr (firstHalf \<or> secondHalf), s3))) = Some r"
        by (auto simp: crowdedBlockProvider_def activityFilter_def Let_def Option.bind_eq_Some_conv)
      from IH[OF first] P have nb: "\<not> (fromBlock \<le> b \<and> b \<le> ?mid)" and "\<exists>v. r1 = Inr v"
        by auto
      then obtain v where "r1 = Inr v" by blast
      with rest obtain r2 where second: "check this (?mid + 1) toBlock s2 = Some r2"
        by (auto simp: Option.bind_eq_Some_conv)
      from IH[OF second] P have "\<not> (?mid + 1 \<le> b \<and> b \<le> toBlock)" by auto
      with nb True show ?thesis by linarith
    qed
  qed
qed

lemma crowded_never_returns:
  "fromBlock \<le> b \<Longrightarrow> b \<le> toBlock \<Longrightarrow>
   checkBlockRangeForActivity \<lparr>provider = crowdedBlockProvider b, vaultAddress = a\<rparr> fromBlock toBlock () = None"
  using crowded_never_returns_aux[of "\<lparr>provider = crowdedBlockProvider b, vaultAddress = a\<rparr>" fromBlock toBlock "()" _ b]
  by (cases "checkBlockRangeForActivity \<lparr>provider = crowdedBlockProvider b, vaultAddress = a\<rparr> fromBlock toBlock ()") auto

text \<open>
  C3 (the code departs from the claim).  The claim: the recursive splitting of
  \<open>checkBlockRangeForActivity\<close> terminates for every interval, and at a single block a
  provider error is propagated instead of recursing further.  In \<open>block-discovery.js\<close>
  the split has no base case: for the single block \<open>[5, 5]\<close> the midpoint is \<open>5\<close>, the
  first half is \<open>[5, 5]\<close> again, and with a provider that rejects every query covering
  block 5 with a "query exceeds" error the probe never returns.
\<close>

theorem split_never_ends_on_single_block:
  "checkBlockRangeForActivity \<lparr>provider = crowdedBlockProvider 5, vaultAddress = ''0xvault''\<rparr> 5 5 () = None"
  by (rule crowded_never_returns) simp_all



text \<open>
  What does hold for the probe of \<open>block-discovery.js\<close>: it returns on every interval
  \<open>fromBlock \<le> toBlock\<close> as soon as the provider never answers a single-block query
  with the range error.
\<close>

lemma check_returns:
  "answersSingleBlocks this \<Longrightarrow> fromBlock \<le> toBlock \<Longrightarrow>
   \<exists>r. checkBlockRangeForActivity this fromBlock toBlock s = Some r"
proof (induction "nat (toBlock - fromBlock)" arbitrary: fromBlock toBlock s rule: less_induct)
  case less
  obtain reply s1 where q: "provider this s (activityFilter this fromBlock toBlock) = (reply, s1)"
    by (cases "provider this s (activityFilter this fromBlock toBlock)")
  show ?case
  proof (cases reply)
    case (Inr logs)
    with q show ?thesis by (subst checkBlockRangeForActivity.simps) simp
  next
    case (Inl err)
    let ?mid = "(fromBlock + toBlock) div 2"
    show ?thesis
    proof (cases "str_includes (message err) ''query exceeds''")
      case False
      with q Inl show ?thesis
        by (subst checkBlockRangeForActivity.simps) (auto simp: Let_def)
    next
      case True
      have "fromBlock \<noteq> toBlock"
      proof
        assume "fromBlock = toBlock"
        then have "f_fromBlock (activityFilter this fromBlock toBlock)
                   = f_toBlock (activityFilter this fromBlock toBlock)"
          by (simp add: activityFilter_def)
        with less.prems(1) q Inl True show False
          unfolding answersSingleBlocks_def by blast
      qed
      with less.prems have m: "fromBlock \<le> ?mid" "?mid < toBlock" by linarith+
      from m less.prems have "nat (?mid - fromBlock) < nat (toBlock - fromBlock)" by linarith
      from less.hyps[OF this less.prems(1), of s1] m obtain r1 s2 where
        1: "checkBlockRangeForActivity this fromBlock ?mid s1 = Some (r1, s2)" by auto
      from m less.prems have "nat (toBlock - (?mid + 1)) < nat (toBlock - fromBlock)" by linarith
      from less.hyps[OF this less.prems(1), of s2] m obtain r2 s3 where
        2: "checkBlockRangeForActivity this (?mid + 1) toBlock s2 = Some (r2, s3)" by auto
      from q Inl True 1 2 show ?thesis
        by (subst checkBlockRangeForActivity.simps)
           (auto simp: Let_def split: sum.splits)
    qed
  qed
qed

text \<open>
  The controller's copy returns on every interval \<open>fromBlock \<le> toBlock\<close>, whatever the
  provider does; on the crowded single block it answers \<open>false\<close>, and it turns an
  unrecognised error into \<open>false\<close>.
\<close>

lemma app_returns:
  "fromBlock \<le> toBlock \<Longrightarrow> \<exists>r. checkBlockRangeForActivity_app this fromBlock toBlock s = Some r"
proof (induction "nat (toBlock - fromBlock)" arbitrary: fromBlock toBlock s rule: less_induct)
  case less
  obtain reply s1 where q: "provider this s (activityFilter this fromBlock toBlock) = (reply, s1)"
    by (cases "provider this s (activityFilter this fromBlock toBlock)")
  show ?case
  proof (cases reply)
    case (Inr logs)
    with q show ?thesis by (subst checkBlockRangeForActivity_app.simps) simp
  next
    case (Inl err)
    let ?mid = "(fromBlock + toBlock) div 2"
    show ?thesis
    proof (cases "(str_includes (message err) ''query exceeds'' \<or> str_includes (message err) ''max results'') \<and> ?mid \<noteq> fromBlock")
      case False
      with q Inl show ?thesis
        by (subst checkBlockRangeForActivity_app.simps) (auto simp: Let_def)
    next
      case True
      with less.prems have m: "fromBlock < ?mid" "?mid < toBlock" by linarith+
      from m less.prems have "nat (?mid - fromBlock) < nat (toBlock - fromBlock)" by linarith
      from less.hyps[OF this, of s1] m obtain r1 s2 where
        1: "checkBlockRangeForActivity_app this fromBlock ?mid s1 = Some (r1, s2)" by auto
      from m less.prems have "nat (toBlock - (?mid + 1)) < nat (toBlock - fromBlock)" by linarith
      from less.hyps[OF this, of s2] m obtain r2 s3 where
        2: "checkBlockRangeForActivity_app this (?mid + 1) toBlock s2 = Some (r2, s3)" by auto
      from q Inl True 1 2 show ?thesis
        by (subst checkBlockRangeForActivity_app.simps)
           (auto simp: Let_def split: sum.splits)
    qed
  qed
qed

lemma app_guard:
  "checkBlockRangeForActivity_app \<lparr>provider = crowdedBlockProvider 5, vaultAddress = ''0xvault''\<rparr> 5 5 ()
   = Some (Inr False, ())"
  by (subst checkBlockRangeForActivity_app.simps)
     (simp add: crowdedBlockProvider_def activityFilter_def)








section \<open>ActivityBoundaryFinder: what the searches guarantee\<close>

text \<open>
  Whatever the provider does, when the searches over \<open>[fromBlock, toBlock]\<close> with
  \<open>0 \<le> fromBlock\<close> return, they report either no activity or one boundary pair
  \<open>first \<le> last\<close> inside the span.
\<close>

lemma first_loop_bounds:
  "binarySearchFirstActivity_loop this left right result s = Some (Inr r, s') \<Longrightarrow>
   lo \<le> left \<Longrightarrow> right \<le> hi \<Longrightarrow> result = - 1 \<or> lo \<le> result \<and> result \<le> hi \<Longrightarrow>
   r = - 1 \<or> lo \<le> r \<and> r \<le> hi"
proof (induction this left right result s rule: binarySearchFirstActivity_loop.induct)
  case (1 this left right result s)
  show ?case
  proof (cases "left \<le> right")
    case False
    with "1.prems" show ?thesis
      by (simp add: binarySearchFirstActivity_loop.simps[of this left right])
  next
    case True
    let ?mid = "(left + right) div 2"
    from True have mid: "left \<le> ?mid" "?mid \<le> right" by linarith+
    from "1.prems"(1) True obtain hasActivity s1 where
      chk: "checkBlockRangeForActivity this ?mid (min (?mid + maxBlockRange) right) s
              = Some (Inr hasActivity, s1)" and
      rec: "(if hasActivity then binarySearchFirstActivity_loop this left (?mid - 1) ?mid s1
             else binarySearchFirstActivity_loop this (?mid + maxBlockRange + 1) right result s1)
            = Some (Inr r, s')"
      by (subst (asm) binarySearchFirstActivity_loop.simps)
         (auto simp: Let_def split: option.splits sum.splits)
    show ?thesis
    proof (cases hasActivity)
      case True
      with rec have "binarySearchFirstActivity_loop this left (?mid - 1) ?mid s1 = Some (Inr r, s')"
        by simp
      from "1.IH"(1)[OF \<open>left \<le> right\<close> refl chk refl refl True this] "1.prems"(2,3) mid
      show ?thesis by simp
    next
      case False
      with rec have "binarySearchFirstActivity_loop this (?mid + maxBlockRange + 1) right result s1
                     = Some (Inr r, s')"
        by simp
      from "1.IH"(2)[OF \<open>left \<le> right\<close> refl chk refl refl False this] "1.prems"(2,3,4) mid
      show ?thesis by (simp add: maxBlockRange_def)
    qed
  qed
qed

lemma last_loop_bounds:
  "binarySearchLastActivity_loop this left right result s = Some (Inr r, s') \<Longrightarrow>
   lo \<le> left \<Longrightarrow> right \<le> hi \<Longrightarrow> lo \<le> result \<and> result \<le> hi \<Longrightarrow>
   lo \<le> r \<and> r \<le> hi"
proof (induction this left right result s rule: binarySearchLastActivity_loop.induct)
  case (1 this left right result s)
  show ?case
  proof (cases "left \<le> right")
    case False
    with "1.prems" show ?thesis
      by (simp add: binarySearchLastActivity_loop.simps[of this left right])
  next
    case True
    let ?mid = "(left + right) div 2"
    from True have mid: "left \<le> ?mid" "?mid \<le> right" by linarith+
    from "1.prems"(1) True obtain hasActivity s1 where
      chk: "checkBlockRangeForActivity this (max (?mid - maxBlockRange) left) ?mid s
              = Some (Inr hasActivity, s1)" and
      rec: "(if hasActivity then binarySearchLastActivity_loop this (?mid + 1) right ?mid s1
             else binarySearchLastActivity_loop this left (?mid - maxBlockRange - 1) result s1)
            = Some (Inr r, s')"
      by (subst (asm) binarySearchLastActivity_loop.simps)
         (auto simp: Let_def split: option.splits sum.splits)
    show ?thesis
    proof (cases hasActivity)
      case True
      with rec have "binarySearchLastActivity_loop this (?mid + 1) right ?mid s1 = Some (Inr r, s')"
        by simp
      from "1.IH"(1)[OF \<open>left \<le> right\<close> refl chk refl refl True this] "1.prems"(2,3) mid
      show ?thesis by simp
    next
      case False
      with rec have "binarySearchLastActivity_loop this left (?mid - maxBlockRange - 1) result s1
                     = Some (Inr r, s')"
        by simp
      from "1.IH"(2)[OF \<open>left \<le> right\<close> refl chk refl refl False this] "1.prems"(2,3,4) mid
      show ?thesis by (simp add: maxBlockRange_def)
    qed
  qed
qed

lemma findActivityBoundaries_in_span:
  assumes "findActivityBoundaries this fromBlock toBlock s = Some (Inr bs, s')" and "0 \<le> fromBlock"
  shows "bs = [] \<or> (\<exists>first last. bs = [\<lparr>b_start = first, b_end = last, totalBlocks = last - first + 1\<rparr>]
            \<and> fromBlock \<le> first \<and> first \<le> last \<and> last \<le> toBlock)"
proof -
  from assms(1) obtain first s1 where
    f: "binarySearchFirstActivity this fromBlock toBlock s = Some (Inr first, s1)"
    by (auto simp: findActivityBoundaries_def split: option.splits sum.splits)
  from first_loop_bounds[OF f[unfolded binarySearchFirstActivity_def], of fromBlock toBlock]
  have fb: "first = - 1 \<or> fromBlock \<le> first \<and> first \<le> toBlock" by simp
  show ?thesis
  proof (cases "first = - 1")
    case True
    with assms(1) f show ?thesis by (simp add: findActivityBoundaries_def)
  next
    case False
    with assms(1) f obtain last where
      l: "binarySearchLastActivity this first toBlock s1 = Some (Inr last, s')" and
      bs: "bs = [\<lparr>b_start = first, b_end = last, totalBlocks = last - first + 1\<rparr>]"
      by (auto simp: findActivityBoundaries_def split: option.splits sum.splits)
    from False fb have "fromBlock \<le> first" "first \<le> toBlock" by simp_all
    with last_loop_bounds[OF l[unfolded binarySearchLastActivity_def], of first toBlock]
    have "first \<le> last \<and> last \<le> toBlock" by simp
    with bs \<open>fromBlock \<le> first\<close> show ?thesis by blast
  qed
qed

section \<open>ActivityBoundaryFinder and RangeSubdivider on concrete chains\<close>

lemma check_activityProvider:
  "checkBlockRangeForActivity \<lparr>provider = activityProvider active, vaultAddress = a\<rparr> fromBlock toBlock s
   = Some (Inr (\<exists>b\<in>{fromBlock..toBlock}. active b), s)"
proof -
  have "(0 < length (filter active [fromBlock..toBlock])) = (\<exists>b\<in>{fromBlock..toBlock}. active b)"
    by (auto simp: filter_empty_conv)
  then show ?thesis
    by (subst checkBlockRangeForActivity.simps)
       (simp add: activityProvider_def activityFilter_def)
qed

lemma interval_meets: "(\<exists>b\<in>{f..t}. lo \<le> b \<and> b \<le> hi) = (max f lo \<le> min t (hi::int))"
proof
  assume "\<exists>b\<in>{f..t}. lo \<le> b \<and> b \<le> hi"
  then show "max f lo \<le> min t hi" by auto
next
  assume "max f lo \<le> min t hi"
  then have "max f lo \<in> {f..t} \<and> lo \<le> max f lo \<and> max f lo \<le> hi" by auto
  then show "\<exists>b\<in>{f..t}. lo \<le> b \<and> b \<le> hi" by blast
qed

lemma check_scenarioA:
  "checkBlockRangeForActivity scenarioA f t s = Some (Inr (max f 800000 \<le> min t 800050), s)"
  unfolding scenarioA_def by (simp add: check_activityProvider interval_meets)

lemma check_twoBursts:
  "checkBlockRangeForActivity twoBursts f t s
   = Some (Inr (f \<le> 0 \<and> 0 \<le> t \<or> f \<le> 3 \<and> 3 \<le> t), s)"
  unfolding twoBursts_def by (auto simp add: check_activityProvider)

lemma scenarioA_first: "binarySearchFirstActivity scenarioA 0 1000000 () = Some (Inr (- 1), ())"
  by (simp add: binarySearchFirstActivity_def binarySearchFirstActivity_loop.simps
      check_scenarioA maxBlockRange_def)

lemma scenarioA_last: "binarySearchLastActivity scenarioA 800000 1000000 () = Some (Inr 803749, ())"
  by (simp add: binarySearchLastActivity_def binarySearchLastActivity_loop.simps
      check_scenarioA maxBlockRange_def)

lemma scenarioA_subdivide:
  "subdivideActiveRegion scenarioA 800000 800050 ()
   = Some (Inr [\<lparr>r_start = 800000, r_end = 800050, blocks = 51\<rparr>], ())"
  by (simp add: subdivideActiveRegion_def subdivideActiveRegion_loop.simps check_scenarioA
      maxBlockRange_def chunkSize_def)

text \<open>
  C1 (the code departs from the claim).  The claim: in Scenario A the two searches over
  \<open>[0, 1000000]\<close> return the boundary pair \<open>[800000, 800050]\<close>, and subdividing that
  pair gives the single chunk \<open>[800000, 800050]\<close>.  On the code, the first search probes
  the windows starting at 500000, 755000, 882500, 946250, 978125 and 994063, finds
  nothing, moves \<open>left\<close> forward each time and returns \<open>-1\<close>, so
  \<open>findActivityBoundaries\<close> reports no activity at all; the last search started at the
  true first block returns 803749, not 800050.  The subdivision of \<open>[800000, 800050]\<close>
  is as claimed.
\<close>

theorem scenarioA_search_misses_activity:
  "binarySearchFirstActivity scenarioA 0 1000000 () = Some (Inr (- 1), ())
   \<and> findActivityBoundaries scenarioA 0 1000000 () = Some (Inr [], ())
   \<and> binarySearchLastActivity scenarioA 800000 1000000 () = Some (Inr 803749, ())
   \<and> subdivideActiveRegion scenarioA 800000 800050 ()
       = Some (Inr [\<lparr>r_start = 800000, r_end = 800050, blocks = 51\<rparr>], ())"
  by (simp add: findActivityBoundaries_def scenarioA_first scenarioA_last scenarioA_subdivide)

text \<open>
  C2 (the code departs from the claim).  The claim: the boundaries returned by the two
  searches over \<open>[a, b]\<close> enclose every block with a watched event.  On the chain with
  events in blocks 0 and 3, searched over \<open>[0, 6]\<close>, the code returns the boundaries
  \<open>[3, 4]\<close>: block 0 holds an event and lies outside them.
\<close>

theorem boundaries_leave_active_block_outside:
  "findActivityBoundaries twoBursts 0 6 ()
     = Some (Inr [\<lparr>b_start = 3, b_end = 4, totalBlocks = 2\<rparr>], ())
   \<and> checkBlockRangeForActivity twoBursts 0 0 () = Some (Inr True, ())"
  by (simp add: findActivityBoundaries_def binarySearchFirstActivity_def
      binarySearchFirstActivity_loop.simps binarySearchLastActivity_def
      binarySearchLastActivity_loop.simps check_twoBursts maxBlockRange_def)

section \<open>RangeSubdivider: subdivideActiveRegion\<close>

text \<open>
  The loop invariant, for any provider: the chunks collected so far lie in the region,
  are ascending, and end before the next chunk start \<open>i\<close>.
\<close>

lemma subdivide_loop_wellformed:
  "subdivideActiveRegion_loop this endBlock i ranges s = Some (Inr out, s') \<Longrightarrow>
   startBlock \<le> i \<Longrightarrow>
   \<forall>r\<in>set ranges. chunkWithin startBlock endBlock r \<and> r_end r < i \<Longrightarrow>
   chunksAscending ranges \<Longrightarrow>
   chunksAscending out \<and> (\<forall>r\<in>set out. chunkWithin startBlock endBlock r)"
proof (induction this endBlock i ranges s rule: subdivideActiveRegion_loop.induct)
  case (1 this endBlock i ranges s)
  show ?case
  proof (cases "i \<le> endBlock")
    case False
    with "1.prems" show ?thesis
      by (simp add: subdivideActiveRegion_loop.simps[of this endBlock i])
  next
    case True
    let ?rangeEnd = "min (i + chunkSize - 1) endBlock"
    from "1.prems"(1) True obtain hasActivity s1 where
      chk: "checkBlockRangeForActivity this i ?rangeEnd s = Some (Inr hasActivity, s1)" and
      rec: "subdivideActiveRegion_loop this endBlock (i + chunkSize)
              (if hasActivity
               then ranges @ [\<lparr>r_start = i, r_end = ?rangeEnd, blocks = ?rangeEnd - i + 1\<rparr>]
               else ranges) s1 = Some (Inr out, s')"
      by (subst (asm) subdivideActiveRegion_loop.simps)
         (auto simp: Let_def split: option.splits sum.splits)
    let ?ranges' = "if hasActivity
               then ranges @ [\<lparr>r_start = i, r_end = ?rangeEnd, blocks = ?rangeEnd - i + 1\<rparr>]
               else ranges"
    have a: "startBlock \<le> i + chunkSize"
      using "1.prems"(2) by (simp add: chunkSize_def maxBlockRange_def)
    have b: "\<forall>r\<in>set ?ranges'. chunkWithin startBlock endBlock r \<and> r_end r < i + chunkSize"
      using "1.prems"(2,3) True
      by (auto simp: chunkWithin_def chunkSize_def maxBlockRange_def)
    have c: "chunksAscending ?ranges'"
      using "1.prems"(3,4) True
      by (auto simp: chunksAscending_def sorted_wrt_append)
    from "1.IH"[OF True refl chk refl refl rec a b c] show ?thesis .
  qed
qed

lemma subdivide_wellformed:
  assumes "subdivideActiveRegion this startBlock endBlock s = Some (Inr ranges, s')"
  shows "chunksAscending ranges \<and> (\<forall>r\<in>set ranges. chunkWithin startBlock endBlock r)"
  using subdivide_loop_wellformed[OF assms[unfolded subdivideActiveRegion_def], of startBlock]
  by (simp add: chunksAscending_def)

text \<open>On a chain given by an activity predicate the loop returns.\<close>

lemma subdivide_loop_returns:
  "\<exists>out. subdivideActiveRegion_loop \<lparr>provider = activityProvider active, vaultAddress = a\<rparr>
            endBlock i ranges () = Some (Inr out, ())"
proof (induction "\<lparr>provider = activityProvider active, vaultAddress = a\<rparr>" endBlock i ranges "()"
        rule: subdivideActiveRegion_loop.induct)
  case (1 endBlock i ranges)
  show ?case
  proof (cases "i \<le> endBlock")
    case False
    then show ?thesis by (simp add: subdivideActiveRegion_loop.simps[of _ endBlock i])
  next
    case True
    from "1.hyps"[OF True refl check_activityProvider refl refl]
    show ?thesis
      using True
      by (subst subdivideActiveRegion_loop.simps) (simp add: check_activityProvider Let_def)
  qed
qed

text \<open>
  C10.  For every region, whatever its bounds, and every activity predicate,
  \<open>subdivideActiveRegion\<close> returns a list of ranges that are pairwise disjoint and in
  strictly increasing order (each ends before every later one starts), each inside
  \<open>[startBlock, endBlock]\<close>, each of at most 5000 blocks, with \<open>blocks = end - start + 1\<close>.
\<close>

theorem subdivideActiveRegion_chunks:
  "\<exists>ranges. subdivideActiveRegion \<lparr>provider = activityProvider active, vaultAddress = a\<rparr>
               startBlock endBlock () = Some (Inr ranges, ())
     \<and> chunksAscending ranges
     \<and> (\<forall>r\<in>set ranges. chunkWithin startBlock endBlock r)"
proof -
  obtain out where out:
    "subdivideActiveRegion \<lparr>provider = activityProvider active, vaultAddress = a\<rparr>
       startBlock endBlock () = Some (Inr out, ())"
    unfolding subdivideActiveRegion_def using subdivide_loop_returns by blast
  from subdivide_wellformed[OF out] out show ?thesis by blast
qed

theorem subdivideActiveRegion_chunks_witness:
  "subdivideActiveRegion \<lparr>provider = activityProvider (\<lambda>b. b = 100 \<or> b = 12000), vaultAddress = ''0xvault''\<rparr>
     0 14999 ()
   = Some (Inr [\<lparr>r_start = 0, r_end = 4999, blocks = 5000\<rparr>,
                \<lparr>r_start = 10000, r_end = 14999, blocks = 5000\<rparr>], ())
   \<and> chunksAscending [\<lparr>r_start = 0, r_end = 4999, blocks = 5000\<rparr>,
                       \<lparr>r_start = 10000, r_end = 14999, blocks = 5000\<rparr>]
   \<and> chunkWithin 0 14999 \<lparr>r_start = 0, r_end = 4999, blocks = 5000\<rparr>
   \<and> chunkWithin 0 14999 \<lparr>r_start = 10000, r_end = 14999, blocks = 5000\<rparr>"
proof -
  let ?d = "\<lparr>provider = activityProvider (\<lambda>b. b = 100 \<or> b = 12000), vaultAddress = ''0xvault''\<rparr>"
  have chk: "\<And>f t s. checkBlockRangeForActivity ?d f t s
       = Some (Inr (f \<le> 100 \<and> 100 \<le> t \<or> f \<le> 12000 \<and> 12000 \<le> t), s)"
    by (auto simp: check_activityProvider)
  have run: "subdivideActiveRegion ?d 0 14999 ()
      = Some (Inr [\<lparr>r_start = 0, r_end = 4999, blocks = 5000\<rparr>,
                   \<lparr>r_start = 10000, r_end = 14999, blocks = 5000\<rparr>], ())"
    by (simp add: subdivideActiveRegion_def subdivideActiveRegion_loop.simps chk
        chunkSize_def maxBlockRange_def)
  from subdivideActiveRegion_chunks[of "\<lambda>b. b = 100 \<or> b = 12000" "''0xvault''" 0 14999]
  obtain ranges where
    "subdivideActiveRegion ?d 0 14999 () = Some (Inr ranges, ())"
    "chunksAscending ranges" "\<forall>r\<in>set ranges. chunkWithin 0 14999 r"
    by blast
  with run show ?thesis by simp
qed

section \<open>ChunkedLogScanner: scanByChunksWithTopics\<close>

lemma classifyLogs_acc:
  "classifyLogs i logs acc = unionScanned acc (classifyLogs i logs noEvents)"
proof (induction logs arbitrary: acc)
  case Nil
  show ?case by (simp add: unionScanned_def noEvents_def)
next
  case (Cons l logs)
  have step: "\<And>x. unionScanned acc (unionScanned x (classifyLogs i logs noEvents))
                  = unionScanned (unionScanned acc x) (classifyLogs i logs noEvents)"
    by (simp add: unionScanned_def)
  have unit: "unionScanned acc (classifyLogs i logs noEvents) = classifyLogs i logs acc"
    by (rule Cons.IH[symmetric])
  show ?case
  proof (cases "parseLog i l")
    case None
    then show ?thesis by (simp add: unit)
  next
    case (Some parsed)
    have "\<And>f. classifyLogs i logs (f acc) = unionScanned (f acc) (classifyLogs i logs noEvents)"
      by (rule Cons.IH)
    moreover have "\<And>f. classifyLogs i logs (f (noEvents :: 'a scanned))
         = unionScanned (f noEvents) (classifyLogs i logs noEvents)"
      by (rule Cons.IH)
    ultimately show ?thesis
      using Some unit by (simp add: step) (simp add: unionScanned_def noEvents_def)
  qed
qed

lemma classifyLogs_append:
  "classifyLogs i (a @ b) acc = classifyLogs i b (classifyLogs i a acc)"
  by (induction a arbitrary: acc) (auto split: option.split)

lemma classifyLogs_union:
  "classifyLogs i (a @ b) noEvents
   = unionScanned (classifyLogs i a noEvents) (classifyLogs i b noEvents)"
  by (subst classifyLogs_append, subst classifyLogs_acc) simp

text \<open>The loop, one chunk at a time.\<close>

lemma unionScanned_assoc:
  "unionScanned (unionScanned x y) z = unionScanned x (unionScanned y z)"
  by (simp add: unionScanned_def)

lemma unionScanned_noEvents [simp]:
  "unionScanned noEvents x = x" "unionScanned x noEvents = x"
  by (simp_all add: unionScanned_def noEvents_def)

lemma scan_loop_unfold:
  "scanByChunksWithTopics_loop getLogs i addr toBlock start acc s =
     (if start \<le> toBlock then
        (case fetchChunk getLogs i addr start (min (start + scanChunkSize - 1) toBlock) s of
           (logs, s') \<Rightarrow>
             scanByChunksWithTopics_loop getLogs i addr toBlock (start + scanChunkSize)
               (classifyLogs i logs acc) s')
      else (acc, s))"
  by (subst scanByChunksWithTopics_loop.simps)
     (simp add: fetchChunk_def Let_def split: prod.splits sum.splits)

lemma scan_loop_acc:
  "scanByChunksWithTopics_loop getLogs i addr toBlock start acc s =
     (unionScanned acc (fst (scanByChunksWithTopics_loop getLogs i addr toBlock start noEvents s)),
      snd (scanByChunksWithTopics_loop getLogs i addr toBlock start noEvents s))"
proof (induction "nat (toBlock - start + 1)" arbitrary: start acc s rule: less_induct)
  case less
  show ?case
  proof (cases "start \<le> toBlock")
    case False
    then show ?thesis by (simp add: scan_loop_unfold[of _ _ _ toBlock start])
  next
    case True
    obtain logs s' where f: "fetchChunk getLogs i addr start (min (start + scanChunkSize - 1) toBlock) s = (logs, s')"
      by (cases "fetchChunk getLogs i addr start (min (start + scanChunkSize - 1) toBlock) s")
    have m: "nat (toBlock - (start + scanChunkSize) + 1) < nat (toBlock - start + 1)"
      using True by (simp add: scanChunkSize_def)
    let ?next = "scanByChunksWithTopics_loop getLogs i addr toBlock (start + scanChunkSize) noEvents s'"
    have a: "scanByChunksWithTopics_loop getLogs i addr toBlock (start + scanChunkSize) (classifyLogs i logs acc) s'
             = (unionScanned (classifyLogs i logs acc) (fst ?next), snd ?next)"
      by (rule less.hyps[OF m])
    have b: "scanByChunksWithTopics_loop getLogs i addr toBlock (start + scanChunkSize) (classifyLogs i logs noEvents) s'
             = (unionScanned (classifyLogs i logs noEvents) (fst ?next), snd ?next)"
      by (rule less.hyps[OF m])
    have c: "classifyLogs i logs acc = unionScanned acc (classifyLogs i logs noEvents)"
      by (rule classifyLogs_acc)
    have L: "scanByChunksWithTopics_loop getLogs i addr toBlock start acc s
             = (unionScanned (classifyLogs i logs acc) (fst ?next), snd ?next)"
      using True f a by (subst scan_loop_unfold) simp
    have R: "scanByChunksWithTopics_loop getLogs i addr toBlock start noEvents s
             = (unionScanned (classifyLogs i logs noEvents) (fst ?next), snd ?next)"
      using True f b by (subst scan_loop_unfold) simp
    show ?thesis
      unfolding L R by (simp add: c unionScanned_assoc)
  qed
qed

text \<open>
  A scan that reaches the chunk start \<open>c\<close> has, up to there, done what the scan ending
  at \<open>c - 1\<close> does.
\<close>

lemma scan_loop_prefix:
  "start + scanChunkSize * int k = c \<Longrightarrow> c \<le> toBlock \<Longrightarrow>
   scanByChunksWithTopics_loop getLogs i addr toBlock start acc s =
     (case scanByChunksWithTopics_loop getLogs i addr (c - 1) start acc s of
        (acc', s') \<Rightarrow> scanByChunksWithTopics_loop getLogs i addr toBlock c acc' s')"
proof (induction k arbitrary: start acc s)
  case 0
  then have "start = c" by simp
  moreover have "scanByChunksWithTopics_loop getLogs i addr (c - 1) c acc s = (acc, s)"
    by (subst scan_loop_unfold) simp
  ultimately show ?case by simp
next
  case (Suc k)
  from Suc.prems have le: "start + scanChunkSize \<le> c" "start \<le> toBlock" "start \<le> c - 1"
    by (auto simp: scanChunkSize_def algebra_simps)
  then have e: "min (start + scanChunkSize - 1) toBlock = min (start + scanChunkSize - 1) (c - 1)"
    using Suc.prems(2) by simp
  obtain logs s' where f: "fetchChunk getLogs i addr start (min (start + scanChunkSize - 1) (c - 1)) s = (logs, s')"
    by (cases "fetchChunk getLogs i addr start (min (start + scanChunkSize - 1) (c - 1)) s")
  have n: "start + scanChunkSize + scanChunkSize * int k = c"
    using Suc.prems(1) by (simp add: algebra_simps)
  have L: "scanByChunksWithTopics_loop getLogs i addr toBlock start acc s
           = scanByChunksWithTopics_loop getLogs i addr toBlock (start + scanChunkSize) (classifyLogs i logs acc) s'"
    using le f e by (subst scan_loop_unfold) simp
  have R: "scanByChunksWithTopics_loop getLogs i addr (c - 1) start acc s
           = scanByChunksWithTopics_loop getLogs i addr (c - 1) (start + scanChunkSize) (classifyLogs i logs acc) s'"
    using le f by (subst scan_loop_unfold) simp
  show ?case unfolding L R by (rule Suc.IH[OF n Suc.prems(2)])
qed


lemma fetchChunk_split:
  assumes "getLogs s (scanFilter i addr start end) = (Inl e, s1)" "end - start > 500"
      and "getLogs s1 (scanFilter i addr start ((start + end) div 2)) = (r1, s2)"
      and "getLogs s2 (scanFilter i addr ((start + end) div 2 + 1) end) = (r2, s3)"
  shows "fetchChunk getLogs i addr start end s = (logsOrNone r1 @ logsOrNone r2, s3)"
  using assms
  by (simp add: fetchChunk_def getLogsCatch_def logsOrNone_def Let_def split: sum.split)

text \<open>
  C7.  In a scan from \<open>5000 - 2000 k\<close> to any \<open>toBlock\<close> of at least 6999, so that
  \<open>[5000, 6999]\<close> is one of its chunks: when the query for that chunk fails, the scanner
  queries \<open>[5000, 5999]\<close> and then \<open>[6000, 6999]\<close>, each once, and goes on with the chunk
  at 7000.  The scan returns the events of the chunks before 5000, then the union of the
  events decoded from the replies to the two halves, then the events of the chunks from
  7000 on; a half whose query fails contributes no log and nothing else is lost.
\<close>

theorem failed_chunk_is_split_once:
  assumes "fromBlock = 5000 - 2000 * int k" and "6999 \<le> toBlock"
      and "scanByChunksWithTopics getLogs i addr fromBlock 4999 s0 = (earlier, s)"
      and "getLogs s (scanFilter i addr 5000 6999) = (Inl e, s1)"
      and "getLogs s1 (scanFilter i addr 5000 5999) = (r1, s2)"
      and "getLogs s2 (scanFilter i addr 6000 6999) = (r2, s3)"
      and "scanByChunksWithTopics getLogs i addr 7000 toBlock s3 = (later, s4)"
  shows "scanByChunksWithTopics getLogs i addr fromBlock toBlock s0 =
           (unionScanned earlier
              (unionScanned
                 (unionScanned (classifyLogs i (logsOrNone r1) noEvents)
                               (classifyLogs i (logsOrNone r2) noEvents))
                 later), s4)"
proof -
  have c: "fromBlock + scanChunkSize * int k = 5000"
    using assms(1) by (simp add: scanChunkSize_def)
  have pre: "scanByChunksWithTopics_loop getLogs i addr toBlock fromBlock noEvents s0
             = scanByChunksWithTopics_loop getLogs i addr toBlock 5000 earlier s"
    using scan_loop_prefix[OF c, of toBlock getLogs i addr noEvents s0] assms(2,3)
    by (simp add: scanByChunksWithTopics_def noEvents_def)
  have f: "fetchChunk getLogs i addr 5000 (min (5000 + scanChunkSize - 1) toBlock) s
           = (logsOrNone r1 @ logsOrNone r2, s3)"
    using assms(2) fetchChunk_split[of getLogs s i addr 5000 6999 e s1 r1 s2 r2 s3] assms(4,5,6)
    by (simp add: scanChunkSize_def)
  have step: "scanByChunksWithTopics_loop getLogs i addr toBlock 5000 earlier s
              = scanByChunksWithTopics_loop getLogs i addr toBlock 7000
                  (classifyLogs i (logsOrNone r1 @ logsOrNone r2) earlier) s3"
    using assms(2) f by (subst scan_loop_unfold) (simp add: scanChunkSize_def)
  have rest: "scanByChunksWithTopics_loop getLogs i addr toBlock 7000 noEvents s3 = (later, s4)"
    using assms(7) by (simp add: scanByChunksWithTopics_def noEvents_def)
  have "scanByChunksWithTopics getLogs i addr fromBlock toBlock s0
        = (unionScanned (classifyLogs i (logsOrNone r1 @ logsOrNone r2) earlier) later, s4)"
    unfolding scanByChunksWithTopics_def noEvents_def[symmetric] pre step
    by (subst scan_loop_acc) (simp add: rest)
  then show ?thesis
    by (simp add: classifyLogs_acc[of i _ earlier] classifyLogs_union unionScanned_assoc)
qed

theorem failed_chunk_is_split_once_witness:
  "scanByChunksWithTopics (recordingProvider scenarioB) namedIface ''0xvault'' 3000 8999 []
   = (\<lparr>s_depositEvents = [\<lparr>e_log = namedLog 5100 ''Deposit'', args = ()\<rparr>],
       s_withdrawEvents = [\<lparr>e_log = namedLog 7100 ''Withdraw'', args = ()\<rparr>],
       s_transferEvents = [\<lparr>e_log = namedLog 3100 ''Transfer'', args = ()\<rparr>,
                           \<lparr>e_log = namedLog 6100 ''Transfer'', args = ()\<rparr>]\<rparr>,
      [scanFilter namedIface ''0xvault'' 3000 4999,
       scanFilter namedIface ''0xvault'' 5000 6999,
       scanFilter namedIface ''0xvault'' 5000 5999,
       scanFilter namedIface ''0xvault'' 6000 6999,
       scanFilter namedIface ''0xvault'' 7000 8999])
   \<and> scanByChunksWithTopics (recordingProvider scenarioB_halfFails) namedIface ''0xvault'' 3000 8999 []
   = (\<lparr>s_depositEvents = [\<lparr>e_log = namedLog 5100 ''Deposit'', args = ()\<rparr>],
       s_withdrawEvents = [\<lparr>e_log = namedLog 7100 ''Withdraw'', args = ()\<rparr>],
       s_transferEvents = [\<lparr>e_log = namedLog 3100 ''Transfer'', args = ()\<rparr>]\<rparr>,
      [scanFilter namedIface ''0xvault'' 3000 4999,
       scanFilter namedIface ''0xvault'' 5000 6999,
       scanFilter namedIface ''0xvault'' 5000 5999,
       scanFilter namedIface ''0xvault'' 6000 6999,
       scanFilter namedIface ''0xvault'' 7000 8999])"
proof -
  let ?q1 = "scanFilter namedIface ''0xvault'' 3000 4999"
  let ?q2 = "scanFilter namedIface ''0xvault'' 5000 6999"
  let ?q3 = "scanFilter namedIface ''0xvault'' 5000 5999"
  let ?q4 = "scanFilter namedIface ''0xvault'' 6000 6999"
  let ?q5 = "scanFilter namedIface ''0xvault'' 7000 8999"
  let ?T3 = "\<lparr>s_depositEvents = [], s_withdrawEvents = [],
              s_transferEvents = [\<lparr>e_log = namedLog 3100 ''Transfer'', args = ()\<rparr>]\<rparr>"
  let ?W7 = "\<lparr>s_depositEvents = [],
              s_withdrawEvents = [\<lparr>e_log = namedLog 7100 ''Withdraw'', args = ()\<rparr>],
              s_transferEvents = []\<rparr>"
  note ev = scanByChunksWithTopics_def scanByChunksWithTopics_loop.simps scanChunkSize_def
    recordingProvider_def scenarioB_def scenarioB_halfFails_def scanFilter_def
    namedIface_def namedLog_def
  have k: "(3000::int) = 5000 - 2000 * int 1" "(6999::int) \<le> 8999" by simp_all
  have e1: "\<And>P. P = scenarioB \<or> P = scenarioB_halfFails \<Longrightarrow>
      scanByChunksWithTopics (recordingProvider P) namedIface ''0xvault'' 3000 4999 [] = (?T3, [?q1])"
    by (auto simp: ev)
  have l1: "\<And>P. P = scenarioB \<or> P = scenarioB_halfFails \<Longrightarrow>
      scanByChunksWithTopics (recordingProvider P) namedIface ''0xvault'' 7000 8999 [?q1, ?q2, ?q3, ?q4]
        = (?W7, [?q1, ?q2, ?q3, ?q4, ?q5])"
    by (auto simp: ev)
  have a: "recordingProvider scenarioB [?q1] ?q2 = (Inl (Error ''RangeTooLarge''), [?q1, ?q2])"
          "recordingProvider scenarioB [?q1, ?q2] ?q3 = (Inr [namedLog 5100 ''Deposit''], [?q1, ?q2, ?q3])"
          "recordingProvider scenarioB [?q1, ?q2, ?q3] ?q4 = (Inr [namedLog 6100 ''Transfer''], [?q1, ?q2, ?q3, ?q4])"
    by (simp_all add: recordingProvider_def scenarioB_def scanFilter_def)
  have b: "recordingProvider scenarioB_halfFails [?q1] ?q2 = (Inl (Error ''RangeTooLarge''), [?q1, ?q2])"
          "recordingProvider scenarioB_halfFails [?q1, ?q2] ?q3 = (Inr [namedLog 5100 ''Deposit''], [?q1, ?q2, ?q3])"
          "recordingProvider scenarioB_halfFails [?q1, ?q2, ?q3] ?q4 = (Inl (Error ''RangeTooLarge''), [?q1, ?q2, ?q3, ?q4])"
    by (simp_all add: recordingProvider_def scenarioB_def scenarioB_halfFails_def scanFilter_def)
  have A: "scanByChunksWithTopics (recordingProvider scenarioB) namedIface ''0xvault'' 3000 8999 []
      = (unionScanned ?T3
           (unionScanned
              (unionScanned (classifyLogs namedIface (logsOrNone (Inr [namedLog 5100 ''Deposit''])) noEvents)
                            (classifyLogs namedIface (logsOrNone (Inr [namedLog 6100 ''Transfer''])) noEvents))
              ?W7), [?q1, ?q2, ?q3, ?q4, ?q5])"
    by (rule failed_chunk_is_split_once[OF k e1 a l1]) simp_all
  have B: "scanByChunksWithTopics (recordingProvider scenarioB_halfFails) namedIface ''0xvault'' 3000 8999 []
      = (unionScanned ?T3
           (unionScanned
              (unionScanned (classifyLogs namedIface (logsOrNone (Inr [namedLog 5100 ''Deposit''])) noEvents)
                            (classifyLogs namedIface (logsOrNone (Inl (Error ''RangeTooLarge''))) noEvents))
              ?W7), [?q1, ?q2, ?q3, ?q4, ?q5])"
    by (rule failed_chunk_is_split_once[OF k e1 b l1]) simp_all
  show ?thesis
    unfolding A B
    by (simp add: unionScanned_def noEvents_def logsOrNone_def namedIface_def namedLog_def)
qed


section \<open>TransferInferenceAdapter: processTransferEvents\<close>

lemma forEach_closed_form:
  "processTransferEvents_forEach ts acc =
     \<lparr>c_depositEvents = c_depositEvents acc @ map syntheticDeposit (filter isMint ts),
      c_withdrawEvents = c_withdrawEvents acc @ map syntheticWithdraw (filter isBurn ts)\<rparr>"
  by (induction ts arbitrary: acc)
     (auto simp: Let_def isMint_def isBurn_def syntheticDeposit_def syntheticWithdraw_def)

lemma processTransferEvents_closed_form:
  "processTransferEvents ts va =
     \<lparr>c_depositEvents = map syntheticDeposit (filter isMint ts),
      c_withdrawEvents = map syntheticWithdraw (filter isBurn ts)\<rparr>"
  by (simp add: processTransferEvents_def forEach_closed_form)

lemma filter_one_of_three:
  assumes "mset ts = {#a, b, c#}" "P a" "\<not> P b" "\<not> P c"
  shows "filter P ts = [a]"
proof -
  have "mset (filter P ts) = filter_mset P (mset ts)" by simp
  also have "\<dots> = {#a#}" using assms by simp
  finally show ?thesis by (metis mset_single_iff_right)
qed

text \<open>
  C6.  For the three transfers (zero to X, 100), (X to Y, 40), (Y to zero, 60), with X
  and Y non-zero addresses and in whatever order they arrive, \<open>processTransferEvents\<close>
  returns exactly one synthetic deposit, for X with assets = shares = 100, and exactly one
  synthetic withdrawal, for Y with assets = shares = 60; the transfer from X to Y adds
  nothing.
\<close>

theorem scenarioC_inferred_events:
  assumes "X \<noteq> zeroAddress" "Y \<noteq> zeroAddress"
    and "mset ts = {# \<lparr>e_log = l1, args = \<lparr>t_from = zeroAddress, t_to = X, t_value = 100\<rparr>\<rparr>,
                      \<lparr>e_log = l2, args = \<lparr>t_from = X, t_to = Y, t_value = 40\<rparr>\<rparr>,
                      \<lparr>e_log = l3, args = \<lparr>t_from = Y, t_to = zeroAddress, t_value = 60\<rparr>\<rparr> #}"
  shows "processTransferEvents ts va =
     \<lparr>c_depositEvents =
        [\<lparr>e_log = l1,
          args = \<lparr>sender = X, receiver = None, owner = X, assets = 100, shares = 100\<rparr>\<rparr>],
      c_withdrawEvents =
        [\<lparr>e_log = l3,
          args = \<lparr>sender = Y, receiver = Some Y, owner = Y, assets = 60, shares = 60\<rparr>\<rparr>]\<rparr>"
proof -
  let ?a = "\<lparr>e_log = l1, args = \<lparr>t_from = zeroAddress, t_to = X, t_value = 100\<rparr>\<rparr>"
  let ?b = "\<lparr>e_log = l2, args = \<lparr>t_from = X, t_to = Y, t_value = 40\<rparr>\<rparr>"
  let ?c = "\<lparr>e_log = l3, args = \<lparr>t_from = Y, t_to = zeroAddress, t_value = 60\<rparr>\<rparr>"
  have m: "filter isMint ts = [?a]"
    using assms by (intro filter_one_of_three[of ts ?a ?b ?c]) (simp_all add: isMint_def)
  have "mset ts = {#?c, ?a, ?b#}"
    using assms(3) by (simp add: add_mset_commute)
  then have b: "filter isBurn ts = [?c]"
    using assms(1,2) by (intro filter_one_of_three[of ts ?c ?a ?b]) (simp_all add: isBurn_def)
  show ?thesis
    by (simp add: processTransferEvents_closed_form m b syntheticDeposit_def syntheticWithdraw_def)
qed

theorem scenarioC_inferred_events_witness:
  "processTransferEvents
     [\<lparr>e_log = namedLog 10 ''Transfer'', args = \<lparr>t_from = zeroAddress, t_to = ''0xX'', t_value = 100\<rparr>\<rparr>,
      \<lparr>e_log = namedLog 11 ''Transfer'', args = \<lparr>t_from = ''0xX'', t_to = ''0xY'', t_value = 40\<rparr>\<rparr>,
      \<lparr>e_log = namedLog 12 ''Transfer'', args = \<lparr>t_from = ''0xY'', t_to = zeroAddress, t_value = 60\<rparr>\<rparr>]
     ''0xvault''
   = \<lparr>c_depositEvents =
        [\<lparr>e_log = namedLog 10 ''Transfer'',
          args = \<lparr>sender = ''0xX'', receiver = None, owner = ''0xX'', assets = 100, shares = 100\<rparr>\<rparr>],
      c_withdrawEvents =
        [\<lparr>e_log = namedLog 12 ''Transfer'',
          args = \<lparr>sender = ''0xY'', receiver = Some ''0xY'', owner = ''0xY'', assets = 60, shares = 60\<rparr>\<rparr>]\<rparr>"
  using scenarioC_inferred_events[of "''0xX''" "''0xY''"
      "[\<lparr>e_log = namedLog 10 ''Transfer'', args = \<lparr>t_from = zeroAddress, t_to = ''0xX'', t_value = 100\<rparr>\<rparr>,
        \<lparr>e_log = namedLog 11 ''Transfer'', args = \<lparr>t_from = ''0xX'', t_to = ''0xY'', t_value = 40\<rparr>\<rparr>,
        \<lparr>e_log = namedLog 12 ''Transfer'', args = \<lparr>t_from = ''0xY'', t_to = zeroAddress, t_value = 60\<rparr>\<rparr>]"
      "namedLog 10 ''Transfer''" "namedLog 11 ''Transfer''" "namedLog 12 ''Transfer''" "''0xvault''"]
  by (simp add: zeroAddress_def)

text \<open>
  C9.  The result of \<open>processTransferEvents\<close> depends on the transfers alone (its second
  argument is not used); two transfer arrays with the same set of transfers give the same
  set of synthetic deposits and the same set of synthetic withdrawals, so in particular a
  second run over the same transfers gives the same result; and when every transfer is
  between two non-zero addresses both components of the result are empty.
\<close>

theorem processTransferEvents_function_of_transfers:
  "processTransferEvents ts va = processTransferEvents ts va'
   \<and> (set ts = set ts' \<longrightarrow>
        set (c_depositEvents (processTransferEvents ts va))
          = set (c_depositEvents (processTransferEvents ts' va'))
      \<and> set (c_withdrawEvents (processTransferEvents ts va))
          = set (c_withdrawEvents (processTransferEvents ts' va')))
   \<and> ((\<forall>e\<in>set ts. t_from (args e) \<noteq> zeroAddress \<and> t_to (args e) \<noteq> zeroAddress) \<longrightarrow>
        processTransferEvents ts va = \<lparr>c_depositEvents = [], c_withdrawEvents = []\<rparr>)"
  by (auto simp: processTransferEvents_closed_form isMint_def isBurn_def filter_empty_conv)

theorem processTransferEvents_function_of_transfers_witness:
  "set (c_depositEvents (processTransferEvents
          [\<lparr>e_log = namedLog 10 ''Transfer'', args = \<lparr>t_from = zeroAddress, t_to = ''0xX'', t_value = 100\<rparr>\<rparr>,
           \<lparr>e_log = namedLog 12 ''Transfer'', args = \<lparr>t_from = ''0xY'', t_to = zeroAddress, t_value = 60\<rparr>\<rparr>]
          ''0xvault''))
   = set (c_depositEvents (processTransferEvents
          [\<lparr>e_log = namedLog 12 ''Transfer'', args = \<lparr>t_from = ''0xY'', t_to = zeroAddress, t_value = 60\<rparr>\<rparr>,
           \<lparr>e_log = namedLog 10 ''Transfer'', args = \<lparr>t_from = zeroAddress, t_to = ''0xX'', t_value = 100\<rparr>\<rparr>,
           \<lparr>e_log = namedLog 12 ''Transfer'', args = \<lparr>t_from = ''0xY'', t_to = zeroAddress, t_value = 60\<rparr>\<rparr>]
          ''0xother''))
   \<and> processTransferEvents
        [\<lparr>e_log = namedLog 11 ''Transfer'', args = \<lparr>t_from = ''0xX'', t_to = ''0xY'', t_value = 40\<rparr>\<rparr>]
        ''0xvault''
      = \<lparr>c_depositEvents = [], c_withdrawEvents = []\<rparr>"
proof -
  let ?mint = "\<lparr>e_log = namedLog 10 ''Transfer'', args = \<lparr>t_from = zeroAddress, t_to = ''0xX'', t_value = 100\<rparr>\<rparr>"
  let ?burn = "\<lparr>e_log = namedLog 12 ''Transfer'', args = \<lparr>t_from = ''0xY'', t_to = zeroAddress, t_value = 60\<rparr>\<rparr>"
  let ?move = "\<lparr>e_log = namedLog 11 ''Transfer'', args = \<lparr>t_from = ''0xX'', t_to = ''0xY'', t_value = 40\<rparr>\<rparr>"
  have same: "set [?mint, ?burn] = set [?burn, ?mint, ?burn]" by auto
  have nonzero: "\<forall>e\<in>set [?move]. t_from (args e) \<noteq> zeroAddress \<and> t_to (args e) \<noteq> zeroAddress"
    by (simp add: zeroAddress_def)
  from processTransferEvents_function_of_transfers
         [of "[?mint, ?burn]" "''0xvault''" "''0xother''" "[?burn, ?mint, ?burn]"] same
  have 1: "set (c_depositEvents (processTransferEvents [?mint, ?burn] ''0xvault''))
           = set (c_depositEvents (processTransferEvents [?burn, ?mint, ?burn] ''0xother''))"
    by blast
  from processTransferEvents_function_of_transfers
         [of "[?move]" "''0xvault''" "''0xvault''" "[?move]"] nonzero
  have 2: "processTransferEvents [?move] ''0xvault'' = \<lparr>c_depositEvents = [], c_withdrawEvents = []\<rparr>"
    by blast
  from 1 2 show ?thesis by blast
qed

section \<open>PositionLedger: processRealEventData\<close>

text \<open>
  C5.  A deposit of 100 assets for X at time T1 followed by a withdrawal of 30 assets
  for X at time T2, with T1 before T2, replayed into the fresh ledger, gives a ledger
  with the single entry X: totalDeposits 100, totalWithdrawals 30, net assets 70, first
  activity the date of T1, last activity the date of T2, one deposit and one withdrawal.
  And a withdrawal applied to any ledger leaves the first activity, the total deposits
  and the deposit count of every entry already present as they were.
\<close>

theorem scenarioD_position:
  "(T1 < T2 \<and> owner (args dep) = X \<and> assets (args dep) = 100
      \<and> owner (args wd) = X \<and> assets (args wd) = 30
      \<and> getBlockTimestamp (blockNumber (e_log dep)) = T1
      \<and> getBlockTimestamp (blockNumber (e_log wd)) = T2 \<longrightarrow>
    (\<exists>ledger d.
       processRealEventData getBlockTimestamp \<lparr>c_depositEvents = [dep], c_withdrawEvents = [wd]\<rparr>
         = Inr ledger
       \<and> dom ledger = {X} \<and> ledger X = Some d \<and> address d = X
       \<and> totalDeposits d = 100 \<and> totalWithdrawals d = 30 \<and> netAssets d = 70
       \<and> firstDeposit d = T1 * 1000 \<and> lastActivity d = T2 * 1000
       \<and> depositCount d = 1 \<and> withdrawalCount d = 1))
   \<and> (addressData a = Some p \<longrightarrow>
        (\<exists>p'. processWithdrawEvent getBlockTimestamp addressData event a = Some p'
           \<and> firstDeposit p' = firstDeposit p
           \<and> totalDeposits p' = totalDeposits p
           \<and> depositCount p' = depositCount p))"
  by (auto simp: processRealEventData_def processDepositEvent_def processWithdrawEvent_def
        newPosition_def netAssets_def Let_def)

theorem scenarioD_position_witness:
  "(\<exists>ledger d.
       processRealEventData (\<lambda>b. 12 * b)
         \<lparr>c_depositEvents =
            [\<lparr>e_log = namedLog 100 ''Deposit'',
              args = \<lparr>sender = ''0xX'', receiver = None, owner = ''0xX'', assets = 100, shares = 90\<rparr>\<rparr>],
          c_withdrawEvents =
            [\<lparr>e_log = namedLog 200 ''Withdraw'',
              args = \<lparr>sender = ''0xX'', receiver = Some ''0xX'', owner = ''0xX'', assets = 30, shares = 25\<rparr>\<rparr>]\<rparr>
         = Inr ledger
       \<and> dom ledger = {''0xX''} \<and> ledger ''0xX'' = Some d \<and> address d = ''0xX''
       \<and> totalDeposits d = 100 \<and> totalWithdrawals d = 30 \<and> netAssets d = 70
       \<and> firstDeposit d = 1200 * 1000 \<and> lastActivity d = 2400 * 1000
       \<and> depositCount d = 1 \<and> withdrawalCount d = 1)
   \<and> (\<exists>p'. processWithdrawEvent (\<lambda>b. 12 * b) [''0xX'' \<mapsto> newPosition ''0xX'' 5000]
              \<lparr>e_log = namedLog 200 ''Withdraw'',
                args = \<lparr>sender = ''0xX'', receiver = Some ''0xX'', owner = ''0xX'', assets = 30, shares = 25\<rparr>\<rparr>
              ''0xX'' = Some p'
           \<and> firstDeposit p' = firstDeposit (newPosition ''0xX'' 5000)
           \<and> totalDeposits p' = totalDeposits (newPosition ''0xX'' 5000)
           \<and> depositCount p' = depositCount (newPosition ''0xX'' 5000))"
proof -
  let ?dep = "\<lparr>e_log = namedLog 100 ''Deposit'',
        args = \<lparr>sender = ''0xX'', receiver = None, owner = ''0xX'', assets = 100, shares = 90\<rparr>\<rparr>"
  let ?wd = "\<lparr>e_log = namedLog 200 ''Withdraw'',
        args = \<lparr>sender = ''0xX'', receiver = Some ''0xX'', owner = ''0xX'', assets = 30, shares = 25\<rparr>\<rparr>"
  have h1: "(1200::int) < 2400 \<and> owner (args ?dep) = ''0xX'' \<and> assets (args ?dep) = 100
      \<and> owner (args ?wd) = ''0xX'' \<and> assets (args ?wd) = 30
      \<and> (\<lambda>b. 12 * b) (blockNumber (e_log ?dep)) = (1200::int)
      \<and> (\<lambda>b. 12 * b) (blockNumber (e_log ?wd)) = (2400::int)"
    by (simp add: namedLog_def)
  have h2: "[''0xX'' \<mapsto> newPosition ''0xX'' 5000] ''0xX'' = Some (newPosition ''0xX'' 5000)"
    by simp
  from scenarioD_position[of 1200 2400 ?dep "''0xX''" ?wd "\<lambda>b. 12 * b"
      "[''0xX'' \<mapsto> newPosition ''0xX'' 5000]" "''0xX''" "newPosition ''0xX'' 5000" ?wd] h1 h2
  show ?thesis by blast
qed

section \<open>GraphVaultDiscovery: consolidateBlockRanges\<close>

lemma gapsWithin_snoc:
  "g \<noteq> [] \<Longrightarrow> gapsWithin m (g @ [x]) = (gapsWithin m g \<and> x - last g \<le> m)"
  by (induction m g rule: gapsWithin.induct) auto

text \<open>
  The loop invariant: \<open>cur\<close> is the cluster being built, from \<open>rangeStart\<close> to
  \<open>rangeEnd\<close>; the loop appends to \<open>ranges\<close> the ranges of a clustering of \<open>cur\<close>
  followed by the rest of the input, whose first cluster extends \<open>cur\<close>.
\<close>

lemma loop_clusters:
  assumes "cur \<noteq> []" "gapsWithin maxGap cur"
  shows "\<exists>gs. gs \<noteq> [] \<and> (\<exists>c. hd gs = cur @ c)
           \<and> concat gs = cur @ rest
           \<and> [] \<notin> set gs
           \<and> (\<forall>g\<in>set gs. gapsWithin maxGap g)
           \<and> gapsBetween maxGap gs
           \<and> consolidateBlockRanges_loop rest maxGap (hd cur) (last cur) ranges
               = ranges @ map rangeOf gs"
  using assms
proof (induction rest arbitrary: cur ranges)
  case Nil
  then show ?case by (intro exI[of _ "[cur]"]) (simp add: rangeOf_def)
next
  case (Cons x rest)
  show ?case
  proof (cases "x - last cur \<le> maxGap")
    case True
    have "cur @ [x] \<noteq> []" "gapsWithin maxGap (cur @ [x])"
      using Cons.prems True by (simp_all add: gapsWithin_snoc)
    from Cons.IH[OF this, of ranges] obtain gs c where
      gs: "gs \<noteq> []" "hd gs = (cur @ [x]) @ c" "concat gs = (cur @ [x]) @ rest" "[] \<notin> set gs"
        "\<forall>g\<in>set gs. gapsWithin maxGap g" "gapsBetween maxGap gs"
        "consolidateBlockRanges_loop rest maxGap (hd (cur @ [x])) (last (cur @ [x])) ranges
           = ranges @ map rangeOf gs"
      by blast
    show ?thesis
      apply (rule exI[of _ gs])
      using gs Cons.prems True
      apply (cases gs)
       apply simp_all
      done
  next
    case False
    have "[x] \<noteq> []" "gapsWithin maxGap [x]" by simp_all
    from Cons.IH[OF this, of "ranges @ [rangeOf cur]"] obtain gs c where
      gs: "gs \<noteq> []" "hd gs = [x] @ c" "concat gs = [x] @ rest" "[] \<notin> set gs"
        "\<forall>g\<in>set gs. gapsWithin maxGap g" "gapsBetween maxGap gs"
        "consolidateBlockRanges_loop rest maxGap (hd [x]) (last [x]) (ranges @ [rangeOf cur])
           = (ranges @ [rangeOf cur]) @ map rangeOf gs"
      by blast
    show ?thesis
      apply (rule exI[of _ "cur # gs"])
      using gs Cons.prems False
      apply (cases gs)
       apply (simp_all add: rangeOf_def)
      done
  qed
qed

lemma sorted_cluster_bounds:
  "sorted g \<Longrightarrow> x \<in> set g \<Longrightarrow> hd g \<le> x \<and> x \<le> last g"
  by (induction g) (auto split: if_splits)

lemma sorted_concat_part: "sorted (concat gs) \<Longrightarrow> g \<in> set gs \<Longrightarrow> sorted g"
  by (induction gs) (auto simp: sorted_append)

text \<open>
  C8.  The empty input gives the empty list.  For every input and every \<open>maxGap\<close> the
  result lists, in order, the ranges (first block to last block) of a splitting of the
  input into consecutive non-empty clusters, such that inside a cluster neighbouring
  block numbers differ by at most \<open>maxGap\<close> and from each cluster to the next the gap
  exceeds \<open>maxGap\<close>: a new range begins exactly at the gaps larger than \<open>maxGap\<close>.  When
  the input is sorted ascending, every input block number lies in a returned range.
\<close>

theorem consolidateBlockRanges_clusters:
  "consolidateBlockRanges [] maxGap = []
   \<and> (\<exists>gs. concat gs = blockNumbers \<and> [] \<notin> set gs
          \<and> consolidateBlockRanges blockNumbers maxGap = map rangeOf gs
          \<and> (\<forall>g\<in>set gs. gapsWithin maxGap g)
          \<and> gapsBetween maxGap gs)
   \<and> (sorted blockNumbers \<longrightarrow>
        (\<forall>b\<in>set blockNumbers. \<exists>r\<in>set (consolidateBlockRanges blockNumbers maxGap).
            br_start r \<le> b \<and> b \<le> br_end r))"
proof -
  have A: "consolidateBlockRanges [] maxGap = []"
    by (simp add: consolidateBlockRanges_def)
  have B: "\<exists>gs. concat gs = blockNumbers \<and> [] \<notin> set gs
          \<and> consolidateBlockRanges blockNumbers maxGap = map rangeOf gs
          \<and> (\<forall>g\<in>set gs. gapsWithin maxGap g)
          \<and> gapsBetween maxGap gs"
  proof (cases blockNumbers)
    case Nil
    then show ?thesis by (intro exI[of _ "[]"]) (simp add: consolidateBlockRanges_def)
  next
    case (Cons b0 rest)
    from loop_clusters[of "[b0]" maxGap rest "[]"] obtain gs where
      "concat gs = [b0] @ rest" "[] \<notin> set gs" "\<forall>g\<in>set gs. gapsWithin maxGap g"
      "gapsBetween maxGap gs"
      "consolidateBlockRanges_loop rest maxGap (hd [b0]) (last [b0]) [] = [] @ map rangeOf gs"
      by auto
    with Cons show ?thesis
      by (intro exI[of _ gs]) (simp add: consolidateBlockRanges_def)
  qed
  have C: "\<forall>b\<in>set blockNumbers. \<exists>r\<in>set (consolidateBlockRanges blockNumbers maxGap).
            br_start r \<le> b \<and> b \<le> br_end r" if s: "sorted blockNumbers"
  proof
    fix b assume b: "b \<in> set blockNumbers"
    from B obtain gs where gs: "concat gs = blockNumbers"
      "consolidateBlockRanges blockNumbers maxGap = map rangeOf gs" by blast
    from b gs(1) obtain g where g: "g \<in> set gs" "b \<in> set g" by auto
    from s gs(1) g(1) have "sorted g" by (auto intro: sorted_concat_part)
    from sorted_cluster_bounds[OF this g(2)]
    have "br_start (rangeOf g) \<le> b \<and> b \<le> br_end (rangeOf g)"
      by (simp add: rangeOf_def)
    moreover have "rangeOf g \<in> set (consolidateBlockRanges blockNumbers maxGap)"
      using g(1) gs(2) by simp
    ultimately show "\<exists>r\<in>set (consolidateBlockRanges blockNumbers maxGap).
        br_start r \<le> b \<and> b \<le> br_end r"
      by blast
  qed
  from A B C show ?thesis by blast
qed

theorem consolidateBlockRanges_clusters_witness:
  "sorted [1, 2, 3, 200, 201, 500 :: int]
   \<and> consolidateBlockRanges [1, 2, 3, 200, 201, 500] 100
       = [\<lparr>br_start = 1, br_end = 3\<rparr>, \<lparr>br_start = 200, br_end = 201\<rparr>, \<lparr>br_start = 500, br_end = 500\<rparr>]
   \<and> (\<exists>gs. concat gs = [1, 2, 3, 200, 201, 500] \<and> [] \<notin> set gs
          \<and> consolidateBlockRanges [1, 2, 3, 200, 201, 500] 100 = map rangeOf gs
          \<and> (\<forall>g\<in>set gs. gapsWithin 100 g) \<and> gapsBetween 100 gs)
   \<and> (\<exists>r\<in>set (consolidateBlockRanges [1, 2, 3, 200, 201, 500] 100).
         br_start r \<le> 2 \<and> 2 \<le> br_end r)
   \<and> (\<exists>r\<in>set (consolidateBlockRanges [1, 2, 3, 200, 201, 500] 100).
         br_start r \<le> 500 \<and> 500 \<le> br_end r)"
proof -
  have s: "sorted [1, 2, 3, 200, 201, 500 :: int]" by simp
  have m: "(2::int) \<in> set [1, 2, 3, 200, 201, 500]" "(500::int) \<in> set [1, 2, 3, 200, 201, 500]"
    by simp_all
  have run: "consolidateBlockRanges [1, 2, 3, 200, 201, 500] 100
       = [\<lparr>br_start = 1, br_end = 3\<rparr>, \<lparr>br_start = 200, br_end = 201\<rparr>, \<lparr>br_start = 500, br_end = 500\<rparr>]"
    by (simp add: consolidateBlockRanges_def)
  from consolidateBlockRanges_clusters[of 100 "[1, 2, 3, 200, 201, 500]"] s m run
  show ?thesis by blast
qed


end
